theory Spec2Isabelle
  imports Main "HOL-Library.List_Lexorder" "HOL-Library.Sublist" "HOL-Library.Multiset"
    "HOL-Library.AList" "HOL-Library.Word"
begin

section \<open>Python values and the library functions the program calls\<close>

text \<open>
  A Python \<open>str\<close> is a sequence of Unicode code points. A code point is modelled as a
  natural number and a string as a list of them, so that characters outside ASCII (the
  folder icon, the replacement character U+FFFD) are single characters, as in Python.
  String comparison in Python is lexicographic on code points, which is the order of
  \<open>HOL-Library.List_Lexorder\<close> on \<open>nat list\<close>. A literal is written \<open>str ''...''\<close>.
\<close>

type_synonym pychar = nat
type_synonym pystr = "pychar list"

abbreviation str :: "string \<Rightarrow> pystr" where
  "str s \<equiv> map of_char s"

text \<open>Exceptions of the Python run-time that the modelled code can raise.\<close>

datatype error = IndexError | KeyError | ValueError | UnicodeDecodeError | FileNotFoundError

text \<open>
  \<open>str.lower()\<close> lowers a string by the case tables of Unicode, which are data of the Python
  library and not of the program. The functions of the program that call it take it as
  the parameter \<open>lower\<close>, a function from strings to strings, and what is proved of them is
  proved for every such function. On a string of ASCII characters \<open>str.lower()\<close> lowers the
  letters \<open>A\<close> to \<open>Z\<close> and leaves the other characters as they are: this is \<open>ascii_lower\<close>,
  at which the examples, whose names are ASCII, are evaluated.
\<close>

definition lower_char :: "pychar \<Rightarrow> pychar" where
  "lower_char c = (if 65 \<le> c \<and> c \<le> 90 then c + 32 else c)"

definition ascii_lower :: "pystr \<Rightarrow> pystr" where
  "ascii_lower s = map lower_char s"

text \<open>
  \<open>s.replace(old, new)\<close>: every occurrence of \<open>old\<close>, found from left to right without
  overlap, is replaced. With an empty \<open>old\<close> Python inserts \<open>new\<close> before every character
  and at the end.
\<close>

function replace :: "pystr \<Rightarrow> pystr \<Rightarrow> pystr \<Rightarrow> pystr" where
  "replace [] old new = (if old = [] then new else [])"
| "replace (c # cs) old new =
     (if old = [] then new @ c # replace cs old new
      else if prefix old (c # cs) then new @ replace (drop (length old) (c # cs)) old new
      else c # replace cs old new)"
  by pat_completeness auto
termination
  by (relation "measure (\<lambda>(s, old, new). length s)") auto

text \<open>\<open>sep.join(parts)\<close>.\<close>

fun join :: "pystr \<Rightarrow> pystr list \<Rightarrow> pystr" where
  "join sep [] = []"
| "join sep [x] = x"
| "join sep (x # y # ys) = x @ sep @ join sep (y # ys)"

text \<open>
  \<open>html.escape(s)\<close> with the default \<open>quote=True\<close>: five replacements in this order, the
  ampersand first. Code point 34 is the double quote and 39 the single quote.
\<close>

definition escape :: "pystr \<Rightarrow> pystr" where
  "escape s =
     (let s1 = replace s (str ''&'') (str ''&amp;'');
          s2 = replace s1 (str ''<'') (str ''&lt;'');
          s3 = replace s2 (str ''>'') (str ''&gt;'');
          s4 = replace s3 [34] (str ''&quot;'');
          s5 = replace s4 [39] (str ''&#x27;'')
      in s5)"

text \<open>
  \<open>str.strip()\<close> removes the characters for which \<open>str.isspace\<close> holds from both ends:
  the ASCII white space and separators 9 to 13 and 28 to 32, and the Unicode spaces
  U+0085, U+00A0, U+1680, U+2000 to U+200A, U+2028, U+2029, U+202F, U+205F and U+3000.
\<close>

definition isspace :: "pychar \<Rightarrow> bool" where
  "isspace c \<longleftrightarrow>
     (9 \<le> c \<and> c \<le> 13) \<or> (28 \<le> c \<and> c \<le> 32) \<or> c = 133 \<or> c = 160 \<or> c = 5760 \<or>
     (8192 \<le> c \<and> c \<le> 8202) \<or> c = 8232 \<or> c = 8233 \<or> c = 8239 \<or> c = 8287 \<or> c = 12288"

definition strip :: "pystr \<Rightarrow> pystr" where
  "strip s = rev (dropWhile isspace (rev (dropWhile isspace s)))"

text \<open>
  \<open>bytes.decode("utf-8", errors)\<close>. A byte is an 8-bit word; the decoder works on the
  values of the bytes. \<open>utf8_step\<close> reads the head of the input as CPython's decoder does:
  it gives the code point and the number of bytes it took, or the length of the span of
  bytes that cannot be decoded (an invalid start byte, a sequence broken by a byte that
  is no continuation byte, an overlong or surrogate encoding, a sequence cut by the end of
  the data). The error handler decides what happens to such a span: \<open>strict\<close> raises
  \<open>UnicodeDecodeError\<close>, \<open>ignore\<close> leaves the span out, \<open>replace\<close> puts U+FFFD (65533).
\<close>

type_synonym byte = "8 word"

datatype errors = Strict | Ignore | Replace

definition is_continuation :: "nat \<Rightarrow> bool" where
  "is_continuation b \<longleftrightarrow> 128 \<le> b \<and> b < 192"

fun utf8_step :: "nat list \<Rightarrow> nat + (pychar \<times> nat)" where
  "utf8_step [] = Inl 0"
| "utf8_step (b # bs) =
     (if b < 128 then Inr (b, 1)
      else if b < 194 then Inl 1
      else if b < 224 then
        (case bs of
           [] \<Rightarrow> Inl 1
         | b2 # _ \<Rightarrow>
             if is_continuation b2 then Inr ((b - 192) * 64 + (b2 - 128), 2) else Inl 1)
      else if b < 240 then
        (case bs of
           [] \<Rightarrow> Inl 1
         | b2 # bs2 \<Rightarrow>
             if \<not> is_continuation b2 \<or> (if b2 < 160 then b = 224 else b = 237) then Inl 1
             else (case bs2 of
                     [] \<Rightarrow> Inl 2
                   | b3 # _ \<Rightarrow>
                       if is_continuation b3
                       then Inr (((b - 224) * 64 + (b2 - 128)) * 64 + (b3 - 128), 3)
                       else Inl 2))
      else if b < 245 then
        (case bs of
           [] \<Rightarrow> Inl 1
         | b2 # bs2 \<Rightarrow>
             if \<not> is_continuation b2 \<or> (if b2 < 144 then b = 240 else b = 244) then Inl 1
             else (case bs2 of
                     [] \<Rightarrow> Inl 2
                   | b3 # bs3 \<Rightarrow>
                       if \<not> is_continuation b3 then Inl 2
                       else (case bs3 of
                               [] \<Rightarrow> Inl 3
                             | b4 # _ \<Rightarrow>
                                 if is_continuation b4
                                 then Inr ((((b - 240) * 64 + (b2 - 128)) * 64 + (b3 - 128)) * 64
                                           + (b4 - 128), 4)
                                 else Inl 3)))
      else Inl 1)"

function decode_utf8 :: "errors \<Rightarrow> nat list \<Rightarrow> error + pystr" where
  "decode_utf8 h [] = Inr []"
| "decode_utf8 h (b # bs) =
     (case utf8_step (b # bs) of
        Inr (c, n) \<Rightarrow>
          (case decode_utf8 h (drop (n - 1) bs) of
             Inl e \<Rightarrow> Inl e
           | Inr s \<Rightarrow> Inr (c # s))
      | Inl n \<Rightarrow>
          (case h of
             Strict \<Rightarrow> Inl UnicodeDecodeError
           | Ignore \<Rightarrow> decode_utf8 h (drop (n - 1) bs)
           | Replace \<Rightarrow>
               (case decode_utf8 h (drop (n - 1) bs) of
                  Inl e \<Rightarrow> Inl e
                | Inr s \<Rightarrow> Inr (65533 # s))))"
  by pat_completeness auto
termination
  by (relation "measure (\<lambda>(h, bs). length bs)") auto

text \<open>
  A file opened in text mode reads with universal newlines: \<open>\r\n\<close> and \<open>\r\<close> become \<open>\n\<close>.
\<close>

definition universal_newlines :: "pystr \<Rightarrow> pystr" where
  "universal_newlines s = replace (replace s [13, 10] [10]) [13] [10]"

text \<open>
  \<open>re.search\<close> for the pattern \<open><info><!\[CDATA\[(.*?)\]\]></info>\<close> with the flags
  \<open>DOTALL\<close> and \<open>IGNORECASE\<close>. Under \<open>IGNORECASE\<close> a character of the text matches a
  character of the pattern when both have the same lower-case form; for a \<open>str\<close> pattern
  Python also lets U+0130 and U+0131 match \<open>i\<close>, U+212A match \<open>k\<close> and U+017F match \<open>s\<close>.
  The search tries the start positions from left to right. At a position where the
  opening literal matches, the lazy group takes the fewest characters (any characters,
  under \<open>DOTALL\<close>) after which the closing literal matches; when no closing literal
  follows, the search goes on at the next position. The result is group 1 of the match.
\<close>

definition ci_match :: "pychar \<Rightarrow> pychar \<Rightarrow> bool" where
  "ci_match p c \<longleftrightarrow>
     lower_char c = lower_char p \<or>
     (lower_char p = 105 \<and> (c = 304 \<or> c = 305)) \<or>
     (lower_char p = 107 \<and> c = 8490) \<or>
     (lower_char p = 115 \<and> c = 383)"

fun ci_prefix :: "pystr \<Rightarrow> pystr \<Rightarrow> bool" where
  "ci_prefix [] s = True"
| "ci_prefix (p # ps) [] = False"
| "ci_prefix (p # ps) (c # cs) = (ci_match p c \<and> ci_prefix ps cs)"

definition INFO_OPEN :: pystr where
  "INFO_OPEN = str ''<info><![CDATA[''"

definition INFO_CLOSE :: pystr where
  "INFO_CLOSE = str '']]></info>''"

fun lazy_until_close :: "pystr \<Rightarrow> pystr option" where
  "lazy_until_close [] = None"
| "lazy_until_close (c # cs) =
     (if ci_prefix INFO_CLOSE (c # cs) then Some []
      else map_option ((#) c) (lazy_until_close cs))"

fun INFO_RE_search :: "pystr \<Rightarrow> pystr option" where
  "INFO_RE_search [] = None"
| "INFO_RE_search (c # cs) =
     (if ci_prefix INFO_OPEN (c # cs)
      then (case lazy_until_close (drop (length INFO_OPEN) (c # cs)) of
              Some group1 \<Rightarrow> Some group1
            | None \<Rightarrow> INFO_RE_search cs)
      else INFO_RE_search cs)"

text \<open>
  A \<open>pathlib\<close> path is the list of its parts; the paths of the program are taken relative to
  \<open>ROOT_DIR\<close>. \<open>name\<close> is the last part, \<open>suffix\<close> the part of the name from its last dot on
  when that dot is neither the first nor the last character, \<open>stem\<close> the name without the
  suffix. \<open>with_suffix\<close> raises \<open>ValueError\<close> for a path with an empty name and
  \<open>relative_to\<close> for a path that is not below the other one.
\<close>

type_synonym path = "pystr list"

definition rfind :: "pystr \<Rightarrow> pychar \<Rightarrow> nat option" where
  "rfind s c =
     (if c \<in> set s then Some (length s - 1 - length (takeWhile (\<lambda>x. x \<noteq> c) (rev s)))
      else None)"

definition path_name :: "path \<Rightarrow> pystr" where
  "path_name p = (if p = [] then [] else last p)"

definition path_suffix :: "path \<Rightarrow> pystr" where
  "path_suffix p =
     (let name = path_name p
      in case rfind name 46 of
           None \<Rightarrow> []
         | Some i \<Rightarrow> if 0 < i \<and> i < length name - 1 then drop i name else [])"

definition path_stem :: "path \<Rightarrow> pystr" where
  "path_stem p =
     (let name = path_name p
      in case rfind name 46 of
           None \<Rightarrow> name
         | Some i \<Rightarrow> if 0 < i \<and> i < length name - 1 then take i name else name)"

definition with_suffix :: "path \<Rightarrow> pystr \<Rightarrow> error + path" where
  "with_suffix p sfx =
     (let name = path_name p
      in if name = [] then Inl ValueError
         else let old_suffix = path_suffix p;
                  name' = (if old_suffix = [] then name @ sfx
                           else take (length name - length old_suffix) name @ sfx)
              in Inr (butlast p @ [name']))"

definition as_posix :: "path \<Rightarrow> pystr" where
  "as_posix p = (if p = [] then str ''.'' else join (str ''/'') p)"

definition relative_to :: "path \<Rightarrow> path \<Rightarrow> error + path" where
  "relative_to p other =
     (if prefix other p then Inr (drop (length other) p) else Inl ValueError)"

section \<open>The program: reading a model and rendering its page\<close>

text \<open>
  The directories of the program, relative to \<open>ROOT_DIR\<close>. The files below \<open>ROOT_DIR\<close> that
  the program reads are an association list from path to content.
\<close>

definition SITE_DIR :: path where
  "SITE_DIR = [str ''site'']"

definition MODELS_DIR :: path where
  "MODELS_DIR = [str ''models'']"

definition OUTPUT_MODELS_DIR :: path where
  "OUTPUT_MODELS_DIR = SITE_DIR @ [str ''models'']"

type_synonym files = "(path \<times> byte list) list"

text \<open>
  \<open>Path.read_text(encoding="utf-8", errors=...)\<close>: a file that is not there raises
  \<open>FileNotFoundError\<close>.
\<close>

definition read_text :: "files \<Rightarrow> path \<Rightarrow> errors \<Rightarrow> error + pystr" where
  "read_text fs p h =
     (case map_of fs p of
        None \<Rightarrow> Inl FileNotFoundError
      | Some bytes \<Rightarrow>
          (case decode_utf8 h (map unat bytes) of
             Inl e \<Rightarrow> Inl e
           | Inr s \<Rightarrow> Inr (universal_newlines s)))"

definition extract_info :: "files \<Rightarrow> path \<Rightarrow> error + pystr" where
  "extract_info fs model_path =
     (case read_text fs model_path Ignore of
        Inl e \<Rightarrow> Inl e
      | Inr text \<Rightarrow>
          (case INFO_RE_search text of
             None \<Rightarrow> Inr []
           | Some group1 \<Rightarrow> Inr (strip group1)))"

definition relative_image_path :: "files \<Rightarrow> path \<Rightarrow> pystr \<Rightarrow> error + pystr option" where
  "relative_image_path fs model_rel prefix_to_site =
     (case with_suffix model_rel (str ''.png'') of
        Inl e \<Rightarrow> Inl e
      | Inr png_rel \<Rightarrow>
          if map_of fs (MODELS_DIR @ png_rel) \<noteq> None
          then Inr (Some (prefix_to_site @ str ''../models/'' @ as_posix png_rel))
          else Inr None)"

definition netlogoweb_url :: "path \<Rightarrow> pystr" where
  "netlogoweb_url model_rel =
     (let encoded_path = replace (as_posix model_rel) (str '' '') (str ''%20'')
      in str ''https://netlogoweb.org/launch#''
         @ str ''https://netlogoweb.org/assets/modelslib/''
         @ encoded_path)"

text \<open>
  \<open>render_model_page\<close>: the f-string of the source, line by line. An image source that is
  \<open>None\<close> or empty is false in the test \<open>if image_src\<close>. Code point 8592 is the arrow U+2190.
\<close>

definition render_model_page ::
  "pystr \<Rightarrow> path \<Rightarrow> pystr \<Rightarrow> pystr option \<Rightarrow> pystr \<Rightarrow> pystr \<Rightarrow> pystr \<Rightarrow> pystr" where
  \<open>render_model_page title model_rel info_html image_src stylesheet_href back_href netlogo_url =
     (let escaped_title = escape title;
          info_block = (if info_html \<noteq> [] then info_html
                        else str ''<p><em>No info tab found.</em></p>'');
          image_html =
            (case image_src of
               None \<Rightarrow> []
             | Some src \<Rightarrow>
                 if src \<noteq> []
                 then str ''<img src="'' @ escape src @ str ''" ''
                      @ str ''alt="Screenshot of '' @ escaped_title @ str ''" />''
                 else [])
      in str ''<!doctype html>\<newline>''
         @ str ''<html lang="en">\<newline>''
         @ str ''  <head>\<newline>''
         @ str ''    <meta charset="utf-8" />\<newline>''
         @ str ''    <meta name="viewport" content="width=device-width, initial-scale=1" />\<newline>''
         @ str ''    <title>'' @ escaped_title @ str ''</title>\<newline>''
         @ str ''    <link rel="stylesheet" href="'' @ escape stylesheet_href @ str ''" />\<newline>''
         @ str ''  </head>\<newline>''
         @ str ''  <body>\<newline>''
         @ str ''    <main class="model-page">\<newline>''
         @ str ''      <a class="back-link" href="'' @ escape back_href @ str ''">''
             @ [8592] @ str '' Back to list</a>\<newline>''
         @ str ''      <div class="model-card">\<newline>''
         @ str ''        <div class="model-header">\<newline>''
         @ str ''          <h1>'' @ escaped_title @ str ''</h1>\<newline>''
         @ str ''          <a class="run-button" href="'' @ escape netlogo_url
             @ str ''" target="_blank" rel="noopener">Run on NetLogoWeb</a>\<newline>''
         @ str ''        </div>\<newline>''
         @ str ''        '' @ image_html @ str ''\<newline>''
         @ str ''        <div class="model-info">'' @ info_block @ str ''</div>\<newline>''
         @ str ''      </div>\<newline>''
         @ str ''    </main>\<newline>''
         @ str ''  </body>\<newline>''
         @ str ''</html>\<newline>'')\<close>

section \<open>The folder tree\<close>

text \<open>
  A leaf record is the dictionary \<open>{"name": ..., "path": ...}\<close>. A tree node is a dictionary
  that may hold the key \<open>"children"\<close> (a dictionary from folder name to node, which keeps
  the order in which keys were inserted) and the key \<open>"files"\<close> (a list of leaf records).
  A key that is absent is \<open>None\<close>; the empty dictionary \<open>{}\<close> is \<open>Tree None None\<close>.
\<close>

datatype file_item = FileItem (item_name: pystr) (item_path: pystr)

datatype tree =
  Tree (children: "(pystr \<times> tree) list option") (files: "file_item list option")

text \<open>\<open>d.get(key) or {}\<close>, \<open>d.get(key, [])\<close> and the value \<open>d.setdefault(key, empty)\<close> returns.\<close>

definition get_or_empty :: "'a list option \<Rightarrow> 'a list" where
  "get_or_empty d = (case d of None \<Rightarrow> [] | Some xs \<Rightarrow> xs)"

text \<open>
  \<open>add_to_tree\<close> mutates the tree in place; the model returns the new tree. With an empty
  \<open>parts\<close> the test \<open>len(parts) == 1\<close> fails and \<open>parts[0]\<close> raises \<open>IndexError\<close> before
  anything is changed. A folder that is new is appended to the dictionary of children;
  one that exists keeps its place, and its node is the one the recursive call changes.
\<close>

fun add_to_tree :: "tree \<Rightarrow> pystr list \<Rightarrow> pystr \<Rightarrow> error + tree" where
  "add_to_tree t [] path = Inl IndexError"
| "add_to_tree t [name] path =
     Inr (Tree (children t) (Some (get_or_empty (files t) @ [FileItem name path])))"
| "add_to_tree t (folder # rest) path =
     (let children0 = get_or_empty (children t);
          children1 = (if folder \<notin> set (map fst children0)
                       then children0 @ [(folder, Tree None None)] else children0)
      in case map_of children1 folder of
           None \<Rightarrow> Inl KeyError
         | Some subtree \<Rightarrow>
             (case add_to_tree subtree rest path of
                Inl e \<Rightarrow> Inl e
              | Inr subtree' \<Rightarrow>
                  Inr (Tree (Some (AList.update folder subtree' children1)) (files t))))"

text \<open>
  The three strings \<open>render_tree\<close> appends for a folder are the opening line, the rendered
  subtree and the closing line; the string it appends for a file is one line. Code point
  128193 is the folder icon U+1F4C1.
\<close>

definition folder_open :: "bool \<Rightarrow> pystr \<Rightarrow> pystr" where
  \<open>folder_open open_root folder =
     (let open_attr = (if open_root then str '' open'' else [])
      in str ''<li><details'' @ open_attr @ str ''><summary><span class="icon folder">''
         @ [128193] @ str ''</span>'' @ escape folder @ str ''</summary>'')\<close>

definition display_name :: "file_item \<Rightarrow> pystr" where
  "display_name file_item = replace (item_name file_item) (str ''.nlogox'') []"

definition file_entry :: "file_item \<Rightarrow> pystr" where
  \<open>file_entry file_item =
     (let name = display_name file_item
      in str ''<li><a href="'' @ escape (item_path file_item)
         @ str ''" target="_blank" rel="noopener">''
         @ str ''<img class="icon file-icon" src="assets/model.png" alt="" />''
         @ escape name @ str ''</a></li>'')\<close>

text \<open>
  \<open>sorted(..., key=...)\<close> is a stable sort on the key, as \<open>sort_key\<close> is. The first argument
  of \<open>sorted_folders\<close>, \<open>sorted_files\<close> and \<open>render_tree\<close> is \<open>str.lower\<close>.
\<close>

definition sorted_folders :: "(pystr \<Rightarrow> pystr) \<Rightarrow> tree \<Rightarrow> (pystr \<times> tree) list" where
  "sorted_folders lower t =
     sort_key (\<lambda>item. lower (fst item)) (get_or_empty (children t))"

definition sorted_files :: "(pystr \<Rightarrow> pystr) \<Rightarrow> tree \<Rightarrow> file_item list" where
  "sorted_files lower t =
     sort_key (\<lambda>item. lower (item_name item)) (get_or_empty (files t))"

function render_tree :: "(pystr \<Rightarrow> pystr) \<Rightarrow> tree \<Rightarrow> pystr \<Rightarrow> bool \<Rightarrow> pystr" where
  "render_tree lower t pfx open_root =
     (let folders = sorted_folders lower t;
          fls = sorted_files lower t;
          html_parts =
            [str ''<ul>'']
            @ concat (map (\<lambda>(folder, subtree).
                [folder_open open_root folder,
                 render_tree lower subtree (pfx @ folder @ str ''/'') False,
                 str ''</details></li>'']) folders)
            @ map file_entry fls
            @ [str ''</ul>'']
      in join [10] html_parts)"
  by pat_completeness auto
termination
proof (relation "measure (\<lambda>(lower, t, pfx, open_root). size t)", goal_cases)
  case 1
  show ?case by simp
next
  case (2 lower t pfx open_root folders fls x folder subtree)
  have est: "(k, s) \<in> set kvs \<Longrightarrow> size s < Suc (size_list (size_prod (\<lambda>x. 0) size) kvs)"
    for k s and kvs :: "(pystr \<times> tree) list"
    by (induction kvs) auto
  from 2 have "(folder, subtree) \<in> set (get_or_empty (children t))"
    by (simp add: sorted_folders_def)
  then show ?case
    by (cases t) (auto simp: get_or_empty_def split: option.splits dest!: est)
qed

section \<open>The program: the loop of main\<close>

text \<open>
  The body of the loop of \<open>main\<close> for one model file: it writes the page of the model and
  registers the model in the tree. The state is the files written so far below
  \<open>ROOT_DIR\<close> and the tree; \<open>markdown\<close> is the function \<open>markdown.markdown\<close> of the library
  with the extensions the program passes. Creating the directories is left out.
\<close>

definition process_model ::
  "(pystr \<Rightarrow> pystr) \<Rightarrow> files \<Rightarrow> path \<Rightarrow> (path \<rightharpoonup> pystr) \<times> tree
     \<Rightarrow> error + ((path \<rightharpoonup> pystr) \<times> tree)" where
  "process_model markdown fs model_path state =
     (case relative_to model_path MODELS_DIR of
        Inl e \<Rightarrow> Inl e
      | Inr model_rel \<Rightarrow>
     (let title = path_stem model_rel in
      case extract_info fs model_path of
        Inl e \<Rightarrow> Inl e
      | Inr info_markdown \<Rightarrow>
     (let info_html = markdown info_markdown;
          depth = length model_rel;
          prefix_to_site = concat (replicate depth (str ''../''));
          stylesheet_href = prefix_to_site @ str ''styles.css'';
          back_href = prefix_to_site @ str ''index.html'' in
      case relative_image_path fs model_rel prefix_to_site of
        Inl e \<Rightarrow> Inl e
      | Inr image_src \<Rightarrow>
     (case with_suffix model_rel (str ''.html'') of
        Inl e \<Rightarrow> Inl e
      | Inr html_rel \<Rightarrow>
     (let output_path = OUTPUT_MODELS_DIR @ html_rel;
          page_html = render_model_page title model_rel info_html image_src
                        stylesheet_href back_href (netlogoweb_url model_rel);
          written = (fst state)(output_path \<mapsto> page_html);
          link_path = str ''models/'' @ as_posix html_rel in
      case add_to_tree (snd state) (butlast model_rel @ [path_name model_rel]) link_path of
        Inl e \<Rightarrow> Inl e
      | Inr tree \<Rightarrow> Inr (written, tree))))))"

text \<open>
  The model files are the files below \<open>MODELS_DIR\<close> whose name ends in \<open>.nlogox\<close>, in sorted
  order; the loop handles them one after the other and stops at the first exception.
\<close>

definition model_paths :: "files \<Rightarrow> path list" where
  "model_paths fs =
     sort (filter (\<lambda>p. strict_prefix MODELS_DIR p \<and> suffix (str ''.nlogox'') (path_name p))
             (map fst fs))"

fun process_all ::
  "(pystr \<Rightarrow> pystr) \<Rightarrow> files \<Rightarrow> path list \<Rightarrow> (path \<rightharpoonup> pystr) \<times> tree
     \<Rightarrow> error + ((path \<rightharpoonup> pystr) \<times> tree)" where
  "process_all markdown fs [] state = Inr state"
| "process_all markdown fs (model_path # rest) state =
     (case process_model markdown fs model_path state of
        Inl e \<Rightarrow> Inl e
      | Inr state' \<Rightarrow> process_all markdown fs rest state')"

section \<open>Notions used to state the properties\<close>

text \<open>
  \<open>subtree_at t ks\<close> is the node reached from \<open>t\<close> by the folder names \<open>ks\<close>, if there is
  one; \<open>node_or_empty\<close> reads a node that is absent as the empty dictionary, which is what
  \<open>add_to_tree\<close> creates for a folder it does not find.
\<close>

fun subtree_at :: "tree \<Rightarrow> pystr list \<Rightarrow> tree option" where
  "subtree_at t [] = Some t"
| "subtree_at t (k # ks) =
     (case map_of (get_or_empty (children t)) k of
        None \<Rightarrow> None
      | Some s \<Rightarrow> subtree_at s ks)"

definition node_or_empty :: "tree \<Rightarrow> pystr list \<Rightarrow> tree" where
  "node_or_empty t ks = (case subtree_at t ks of None \<Rightarrow> Tree None None | Some n \<Rightarrow> n)"






text \<open>
  \<open>ci_equal p s\<close>: the text \<open>s\<close> is an occurrence of the literal \<open>p\<close> under \<open>IGNORECASE\<close>.
\<close>

definition ci_equal :: "pystr \<Rightarrow> pystr \<Rightarrow> bool" where
  "ci_equal p s \<longleftrightarrow> length s = length p \<and> ci_prefix p s"

text \<open>
  The reading of the five character references that \<open>html.escape\<close> writes, to state that
  escaping loses nothing; and the characters that delimit markup, the angle brackets and
  the two quotes.
\<close>

function unescape :: "pystr \<Rightarrow> pystr" where
  "unescape [] = []"
| "unescape (c # cs) =
     (if prefix (str ''&amp;'') (c # cs) then 38 # unescape (drop 5 (c # cs))
      else if prefix (str ''&lt;'') (c # cs) then 60 # unescape (drop 4 (c # cs))
      else if prefix (str ''&gt;'') (c # cs) then 62 # unescape (drop 4 (c # cs))
      else if prefix (str ''&quot;'') (c # cs) then 34 # unescape (drop 6 (c # cs))
      else if prefix (str ''&#x27;'') (c # cs) then 39 # unescape (drop 6 (c # cs))
      else c # unescape cs)"
  by pat_completeness auto
termination
  by (relation "measure length") auto

definition markup_chars :: "pystr \<Rightarrow> pystr" where
  "markup_chars s = filter (\<lambda>c. c = 60 \<or> c = 62 \<or> c = 34 \<or> c = 39) s"

text \<open>The bytes of an ASCII text.\<close>

definition ascii :: "string \<Rightarrow> byte list" where
  "ascii s = map of_char s"

text \<open>
  \<open>match_begins p s\<close>: at some position of \<open>s\<close> an occurrence of \<open>p\<close> begins, complete or
  cut off by the end of \<open>s\<close>. A text in which no occurrence begins can be skipped when
  looking for \<open>p\<close> in a longer text.
\<close>

fun match_begins :: "'a list \<Rightarrow> 'a list \<Rightarrow> bool" where
  "match_begins p [] = False"
| "match_begins p (c # cs) = (prefix p (c # cs) \<or> prefix (c # cs) p \<or> match_begins p cs)"

text \<open>
  The files of the scenario: one model, \<open>Biology/Wolf Sheep.nlogox\<close>, with the documentation
  block \<open># Title\n\nText\<close>, and its screenshot \<open>Wolf Sheep.png\<close> beside it.
\<close>

definition wolf_sheep_files :: files where
  "wolf_sheep_files =
     [([str ''models'', str ''Biology'', str ''Wolf Sheep.nlogox''],
       ascii ''<info><![CDATA[# Title\<newline>\<newline>Text]]></info>''),
      ([str ''models'', str ''Biology'', str ''Wolf Sheep.png''], [0x89, 0x50, 0x4E, 0x47])]"

section \<open>Properties of escaping\<close>

lemma replace_char:
  "replace s [c] new = concat (map (\<lambda>x. if x = c then new else [x]) s)"
  by (induction s) auto

lemma escape_concat:
  "escape s = concat (map (\<lambda>c. if c = 38 then str ''&amp;'' else if c = 60 then str ''&lt;''
      else if c = 62 then str ''&gt;'' else if c = 34 then str ''&quot;''
      else if c = 39 then str ''&#x27;'' else [c]) s)"
  unfolding escape_def Let_def replace_char
  by (induction s) auto

lemma escape_Nil [simp]: "escape [] = []"
  by (simp add: escape_concat)

lemma escape_Cons:
  "escape (c # s) = (if c = 38 then str ''&amp;'' else if c = 60 then str ''&lt;''
      else if c = 62 then str ''&gt;'' else if c = 34 then str ''&quot;''
      else if c = 39 then str ''&#x27;'' else [c]) @ escape s"
  by (simp add: escape_concat)

section \<open>Properties of reading and searching the model file\<close>

lemma decode_ignore_total: "\<exists>s. decode_utf8 Ignore bs = Inr s"
proof (induction "length bs" arbitrary: bs rule: less_induct)
  case less
  show ?case
  proof (cases bs)
    case Nil
    then show ?thesis by simp
  next
    case (Cons b bs')
    have "\<exists>s. decode_utf8 Ignore (drop k bs') = Inr s" for k
      by (rule less) (simp add: Cons)
    then obtain f where f: "\<And>k. decode_utf8 Ignore (drop k bs') = Inr (f k)"
      by metis
    show ?thesis
      unfolding Cons decode_utf8.simps
      by (simp add: f split: sum.splits prod.splits del: utf8_step.simps)
  qed
qed

lemma ci_prefix_append:
  "length s = length p \<Longrightarrow> ci_prefix p (s @ r) = ci_prefix p s"
  by (induction p s rule: ci_prefix.induct) auto

lemma ci_prefix_take:
  "ci_prefix p s \<Longrightarrow> ci_equal p (take (length p) s) \<and> length p \<le> length s"
  by (induction p s rule: ci_prefix.induct) (auto simp: ci_equal_def)

lemma search_skip:
  "(\<forall>i < length pre. \<not> ci_prefix INFO_OPEN (drop i (pre @ r))) \<Longrightarrow>
   INFO_RE_search (pre @ r) = INFO_RE_search r"
proof (induction pre)
  case Nil
  then show ?case by simp
next
  case (Cons c pre)
  from Cons.prems have "\<not> ci_prefix INFO_OPEN (c # pre @ r)" by force
  moreover from Cons.prems have "\<forall>i < length pre. \<not> ci_prefix INFO_OPEN (drop i (pre @ r))"
    by force
  ultimately show ?case using Cons.IH by simp
qed

lemma lazy_first:
  "(\<forall>i < length inner. \<not> ci_prefix INFO_CLOSE (drop i (inner @ cl @ post))) \<Longrightarrow>
   ci_equal INFO_CLOSE cl \<Longrightarrow>
   lazy_until_close (inner @ cl @ post) = Some inner"
proof (induction inner)
  case Nil
  then have "ci_prefix INFO_CLOSE (cl @ post)" "cl \<noteq> []"
    by (auto simp: ci_equal_def ci_prefix_append INFO_CLOSE_def)
  then show ?case by (cases cl) auto
next
  case (Cons c inner)
  from Cons.prems have "\<not> ci_prefix INFO_CLOSE (c # inner @ cl @ post)" by force
  moreover from Cons.prems have
    "\<forall>i < length inner. \<not> ci_prefix INFO_CLOSE (drop i (inner @ cl @ post))"
    by force
  ultimately show ?case using Cons.IH Cons.prems(2) by simp
qed

lemma search_first:
  assumes "\<forall>i < length pre. \<not> ci_prefix INFO_OPEN (drop i (pre @ op @ inner @ cl @ post))"
    and "ci_equal INFO_OPEN op"
    and "\<forall>i < length inner. \<not> ci_prefix INFO_CLOSE (drop i (inner @ cl @ post))"
    and "ci_equal INFO_CLOSE cl"
  shows "INFO_RE_search (pre @ op @ inner @ cl @ post) = Some inner"
proof -
  from assms(2) have len: "length op = length INFO_OPEN"
    and pre: "ci_prefix INFO_OPEN (op @ inner @ cl @ post)"
    by (simp_all add: ci_equal_def ci_prefix_append)
  from len obtain c cs where op: "op = c # cs"
    by (cases op) (auto simp: INFO_OPEN_def)
  have d: "drop (length INFO_OPEN) (c # cs @ inner @ cl @ post) = inner @ cl @ post"
    by (simp add: len [symmetric] op)
  have "INFO_RE_search (op @ inner @ cl @ post) = Some inner"
    using pre lazy_first [OF assms(3,4)]
    by (simp add: op d)
  with search_skip [OF assms(1)] show ?thesis by simp
qed

lemma lazy_sound:
  "lazy_until_close s = Some g \<Longrightarrow>
   \<exists>cl post. s = g @ cl @ post \<and> ci_equal INFO_CLOSE cl"
proof (induction s arbitrary: g)
  case Nil
  then show ?case by simp
next
  case (Cons c s)
  show ?case
  proof (cases "ci_prefix INFO_CLOSE (c # s)")
    case True
    with Cons.prems have "g = []" by simp
    moreover from ci_prefix_take [OF True]
    have "ci_equal INFO_CLOSE (take (length INFO_CLOSE) (c # s))" by simp
    moreover have "c # s = take (length INFO_CLOSE) (c # s) @ drop (length INFO_CLOSE) (c # s)"
      by simp
    ultimately show ?thesis by (metis append_Nil)
  next
    case False
    with Cons.prems obtain g' where "lazy_until_close s = Some g'" "g = c # g'"
      by auto
    with Cons.IH [of g'] show ?thesis by auto
  qed
qed

lemma search_sound:
  "INFO_RE_search s = Some g \<Longrightarrow>
   \<exists>pre op cl post. s = pre @ op @ g @ cl @ post \<and>
      ci_equal INFO_OPEN op \<and> ci_equal INFO_CLOSE cl"
proof (induction s)
  case Nil
  then show ?case by simp
next
  case (Cons c s)
  let ?rest = "drop (length INFO_OPEN) (c # s)"
  show ?case
  proof (cases "ci_prefix INFO_OPEN (c # s) \<and> lazy_until_close ?rest = Some g")
    case True
    then have op: "ci_equal INFO_OPEN (take (length INFO_OPEN) (c # s))"
      using ci_prefix_take by blast
    from True lazy_sound obtain cl post where "?rest = g @ cl @ post" "ci_equal INFO_CLOSE cl"
      by blast
    moreover have "c # s = [] @ take (length INFO_OPEN) (c # s) @ ?rest" by simp
    ultimately show ?thesis using op by metis
  next
    case False
    with Cons.prems have "INFO_RE_search s = Some g"
      by (auto split: if_splits option.splits)
    from Cons.IH [OF this] obtain pre op cl post where
      "s = pre @ op @ g @ cl @ post" "ci_equal INFO_OPEN op" "ci_equal INFO_CLOSE cl"
      by blast
    then have "c # s = (c # pre) @ op @ g @ cl @ post" by simp
    with \<open>ci_equal INFO_OPEN op\<close> \<open>ci_equal INFO_CLOSE cl\<close> show ?thesis by blast
  qed
qed

lemma strip_decomp:
  "\<exists>ws1 ws2. s = ws1 @ strip s @ ws2 \<and> list_all isspace ws1 \<and> list_all isspace ws2"
proof -
  let ?d = "dropWhile isspace s"
  have "s = takeWhile isspace s @ ?d" by simp
  moreover have "rev ?d = takeWhile isspace (rev ?d) @ dropWhile isspace (rev ?d)" by simp
  then have "?d = rev (dropWhile isspace (rev ?d)) @ rev (takeWhile isspace (rev ?d))"
    by (metis rev_append rev_rev_ident)
  ultimately have "s = takeWhile isspace s @ strip s @ rev (takeWhile isspace (rev ?d))"
    by (simp add: strip_def)
  moreover have "list_all isspace (takeWhile isspace s)"
    "list_all isspace (rev (takeWhile isspace (rev ?d)))"
    by (auto simp: list_all_iff dest: set_takeWhileD)
  ultimately show ?thesis by blast
qed

lemma last_dropWhile:
  "dropWhile P xs \<noteq> [] \<Longrightarrow> last (dropWhile P xs) = last xs"
  by (induction xs) (auto split: if_splits)

lemma strip_ends:
  assumes "strip s \<noteq> []"
  shows "\<not> isspace (hd (strip s)) \<and> \<not> isspace (last (strip s))"
proof -
  let ?d = "dropWhile isspace s"
  let ?e = "dropWhile isspace (rev ?d)"
  from assms have e: "?e \<noteq> []" by (simp add: strip_def)
  have d: "?d \<noteq> []"
  proof
    assume "?d = []"
    with e show False by simp
  qed
  have "last (strip s) = hd ?e"
    using e by (simp add: strip_def last_rev)
  moreover have "\<not> isspace (hd ?e)" using e by (rule hd_dropWhile)
  moreover have "hd (strip s) = last ?e"
    using e by (simp add: strip_def hd_rev)
  moreover have "last ?e = last (rev ?d)" using e by (rule last_dropWhile)
  moreover have "last (rev ?d) = hd ?d" using d by (simp add: last_rev)
  moreover have "\<not> isspace (hd ?d)" using d by (rule hd_dropWhile)
  ultimately show ?thesis by simp
qed

lemma utf8_step_append:
  "utf8_step bs = Inr (c, n) \<Longrightarrow>
   utf8_step (bs @ r) = Inr (c, n) \<and> 0 < n \<and> n \<le> length bs"
  by (cases bs) (auto split: if_splits list.splits)

lemma decode_strict_Cons:
  "decode_utf8 Strict (b # bs) = Inr t \<Longrightarrow>
   \<exists>c n t'. utf8_step (b # bs) = Inr (c, n) \<and> decode_utf8 Strict (drop (n - 1) bs) = Inr t' \<and>
            t = c # t'"
  by (auto simp del: utf8_step.simps split: sum.splits prod.splits)

lemma utf8_step_boundary:
  assumes "x \<noteq> []" and "y = [] \<or> \<not> is_continuation (hd y)"
  shows "utf8_step (x @ y) = utf8_step x"
proof -
  from assms(1) obtain b j where x: "x = b # j" by (cases x) auto
  show ?thesis
  proof (cases y)
    case Nil
    then show ?thesis by simp
  next
    case (Cons b' y')
    with assms(2) have nc: "\<not> is_continuation b'" by simp
    show ?thesis
      unfolding x Cons using nc
      by (cases j rule: list.exhaust [case_product list.exhaust [case_product list.exhaust]])
         (auto split: list.splits simp: Let_def)
  qed
qed

lemma utf8_step_span:
  "utf8_step (b # bs) = Inl n \<Longrightarrow> 0 < n \<and> n \<le> Suc (length bs)"
  by (auto split: if_splits list.splits)

lemma utf8_step_take:
  "utf8_step bs = Inr (c, n) \<Longrightarrow> decode_utf8 Strict (take n bs) = Inr [c]"
  by (cases bs) (auto split: if_splits list.splits)

lemma decode_append_boundary:
  assumes "y = [] \<or> \<not> is_continuation (hd y)"
  shows "decode_utf8 h (x @ y) =
         (case decode_utf8 h x of
            Inl e \<Rightarrow> Inl e
          | Inr t \<Rightarrow> (case decode_utf8 h y of Inl e \<Rightarrow> Inl e | Inr t' \<Rightarrow> Inr (t @ t')))"
proof (induction "length x" arbitrary: x rule: less_induct)
  case less
  show ?case
  proof (cases x)
    case Nil
    then show ?thesis by (simp split: sum.splits)
  next
    case (Cons b j)
    have st: "utf8_step (b # j @ y) = utf8_step (b # j)"
      using utf8_step_boundary [of "b # j" y] assms by simp
    have IH: "decode_utf8 h (drop m j @ y) =
         (case decode_utf8 h (drop m j) of
            Inl e \<Rightarrow> Inl e
          | Inr t \<Rightarrow> (case decode_utf8 h y of Inl e \<Rightarrow> Inl e | Inr t' \<Rightarrow> Inr (t @ t')))" for m
      by (rule less.hyps) (simp add: Cons)
    show ?thesis
    proof (cases "utf8_step (b # j)")
      case (Inl n)
      from utf8_step_span [OF Inl] have "n - 1 \<le> length j" by arith
      then have d: "drop (n - 1) (j @ y) = drop (n - 1) j @ y" by simp
      from d IH [of "n - 1"] show ?thesis
        unfolding Cons
        by (cases h) (simp_all add: st Inl del: utf8_step.simps split: sum.splits)
    next
      case (Inr cn)
      obtain c n where cn: "cn = (c, n)" by (cases cn)
      from utf8_step_append [OF Inr [unfolded cn], of "[]"] have "n - 1 \<le> length j"
        by (auto simp del: utf8_step.simps)
      then have d: "drop (n - 1) (j @ y) = drop (n - 1) j @ y" by simp
      from d IH [of "n - 1"] show ?thesis
        unfolding Cons
        by (simp add: st Inr cn del: utf8_step.simps split: sum.splits)
    qed
  qed
qed

lemma decode_clean_prefix:
  assumes "decode_utf8 Strict x = Inr t"
  shows "decode_utf8 h (x @ z) =
         (case decode_utf8 h z of Inl e \<Rightarrow> Inl e | Inr t' \<Rightarrow> Inr (t @ t'))"
  using assms
proof (induction "length x" arbitrary: x t rule: less_induct)
  case less
  show ?case
  proof (cases x)
    case Nil
    with less.prems have "t = []" by simp
    with Nil show ?thesis by (simp split: sum.splits)
  next
    case (Cons b j)
    from decode_strict_Cons [OF less.prems [unfolded Cons]] obtain c n t' where
      st: "utf8_step (b # j) = Inr (c, n)"
      and rest: "decode_utf8 Strict (drop (n - 1) j) = Inr t'"
      and t: "t = c # t'"
      by blast
    from utf8_step_append [OF st, of z] have
      st': "utf8_step (b # j @ z) = Inr (c, n)" and n: "0 < n" "n - 1 \<le> length j"
      by auto
    have "length (drop (n - 1) j) < length x" by (simp add: Cons)
    from less.hyps [OF this rest] have
      "decode_utf8 h (drop (n - 1) j @ z) =
         (case decode_utf8 h z of Inl e \<Rightarrow> Inl e | Inr t'' \<Rightarrow> Inr (t' @ t''))" .
    moreover have "drop (n - 1) (j @ z) = drop (n - 1) j @ z"
      using n by simp
    ultimately show ?thesis
      by (simp add: Cons st' t del: utf8_step.simps split: sum.splits)
  qed
qed

lemma decode_no_character:
  assumes "\<forall>i n c. decode_utf8 Strict (take n (drop i g)) \<noteq> Inr [c]"
  shows "decode_utf8 Ignore g = Inr [] \<and> (g \<noteq> [] \<longrightarrow> decode_utf8 Strict g = Inl UnicodeDecodeError)"
  using assms
proof (induction "length g" arbitrary: g rule: less_induct)
  case less
  show ?case
  proof (cases g)
    case Nil
    then show ?thesis by simp
  next
    case (Cons b j)
    show ?thesis
    proof (cases "utf8_step (b # j)")
      case (Inl n)
      from utf8_step_span [OF Inl] have n: "0 < n" by simp
      have "\<forall>i m c. decode_utf8 Strict (take m (drop i (drop (n - 1) j))) \<noteq> Inr [c]"
      proof (intro allI)
        fix i m c
        have "drop i (drop (n - 1) j) = drop (i + n) g"
          using n by (cases n) (simp_all add: Cons add.commute)
        with less.prems show "decode_utf8 Strict (take m (drop i (drop (n - 1) j))) \<noteq> Inr [c]"
          by simp
      qed
      moreover have "length (drop (n - 1) j) < length g" by (simp add: Cons)
      ultimately have "decode_utf8 Ignore (drop (n - 1) j) = Inr []"
        using less.hyps by blast
      then show ?thesis
        by (simp add: Cons Inl del: utf8_step.simps)
    next
      case (Inr cn)
      obtain c n where cn: "cn = (c, n)" by (cases cn)
      from utf8_step_take [OF Inr [unfolded cn]] less.prems [rule_format, of n 0 c]
      show ?thesis by (simp add: Cons)
    qed
  qed
qed

lemma extract_info_total:
  "map_of fs model_path = Some bytes \<Longrightarrow> \<exists>info. extract_info fs model_path = Inr info"
  using decode_ignore_total [of "map unat bytes"]
  by (auto simp: extract_info_def read_text_def split: option.splits sum.splits)

lemma read_text_drops:
  assumes f: "map_of fs p = Some (bytes1 @ junk @ bytes2)"
    and c: "decode_utf8 Strict (map unat bytes1) = Inr t1"
    and j: "\<forall>i n c. decode_utf8 Strict (take n (drop i (map unat junk))) \<noteq> Inr [c]"
    and b: "bytes2 = [] \<or> \<not> is_continuation (unat (hd bytes2))"
  shows "\<exists>t2. decode_utf8 Ignore (map unat bytes2) = Inr t2 \<and>
          read_text fs p Ignore = Inr (universal_newlines (t1 @ t2)) \<and>
          extract_info fs p = extract_info [(p, bytes1 @ bytes2)] p \<and>
          (junk \<noteq> [] \<longrightarrow> read_text fs p Strict = Inl UnicodeDecodeError)"
proof -
  from decode_ignore_total obtain t2 where t2: "decode_utf8 Ignore (map unat bytes2) = Inr t2"
    by blast
  have b': "map unat bytes2 = [] \<or> \<not> is_continuation (hd (map unat bytes2))"
    using b by (cases bytes2) auto
  note J = decode_no_character [OF j]
  have 1: "decode_utf8 Ignore (map unat (bytes1 @ junk @ bytes2)) = Inr (t1 @ t2)"
    by (simp add: decode_clean_prefix [OF c] decode_append_boundary [OF b'] J t2)
  have 2: "decode_utf8 Ignore (map unat (bytes1 @ bytes2)) = Inr (t1 @ t2)"
    by (simp add: decode_clean_prefix [OF c] t2)
  have 3: "decode_utf8 Strict (map unat (bytes1 @ junk @ bytes2)) = Inl UnicodeDecodeError"
    if "junk \<noteq> []"
    using that J by (simp add: decode_clean_prefix [OF c] decode_append_boundary [OF b'])
  show ?thesis
    using t2 1 2 3 f by (simp add: read_text_def extract_info_def)
qed

lemma no_character_example:
  "decode_utf8 Strict (take n (drop i [255, 226, 130])) \<noteq> Inr [c]"
proof -
  have "take n (drop i [255::nat, 226, 130]) \<in>
        {[], [255], [255, 226], [255, 226, 130], [226], [226, 130], [130]}"
    by (auto simp: drop_Cons take_Cons split: nat.splits)
  then show ?thesis by (auto simp: is_continuation_def)
qed

lemma decode_ignore_chars:
  assumes "decode_utf8 Ignore bs = Inr t" and "c \<in> set t"
  shows "\<exists>i n. decode_utf8 Strict (take n (drop i bs)) = Inr [c]"
  using assms
proof (induction "length bs" arbitrary: bs t rule: less_induct)
  case less
  show ?case
  proof (cases bs)
    case Nil
    with less.prems show ?thesis by simp
  next
    case (Cons b j)
    have tl: "\<exists>i n. decode_utf8 Strict (take n (drop i bs)) = Inr [c]"
      if "decode_utf8 Ignore (drop (m - 1) j) = Inr t'" and "c \<in> set t'" and "0 < m" for m t'
    proof -
      have "length (drop (m - 1) j) < length bs" by (simp add: Cons)
      from less.hyps [OF this that(1,2)] obtain i n where
        "decode_utf8 Strict (take n (drop i (drop (m - 1) j))) = Inr [c]" by blast
      moreover have "drop i (drop (m - 1) j) = drop (i + m) bs"
        using that(3) by (cases m) (simp_all add: Cons add.commute)
      ultimately show ?thesis by metis
    qed
    show ?thesis
    proof (cases "utf8_step (b # j)")
      case (Inl m)
      from utf8_step_span [OF Inl] have m: "0 < m" by simp
      from less.prems(1) have "decode_utf8 Ignore (drop (m - 1) j) = Inr t"
        by (simp add: Cons Inl del: utf8_step.simps)
      from tl [OF this less.prems(2) m] show ?thesis .
    next
      case (Inr cm)
      obtain c0 m where cm: "cm = (c0, m)" by (cases cm)
      from utf8_step_append [OF Inr [unfolded cm], of "[]"] have m: "0 < m" by blast
      from less.prems(1) obtain t' where
        t': "decode_utf8 Ignore (drop (m - 1) j) = Inr t'" and t: "t = c0 # t'"
        by (auto simp add: Cons Inr cm simp del: utf8_step.simps split: sum.splits)
      show ?thesis
      proof (cases "c = c0")
        case True
        from utf8_step_take [OF Inr [unfolded cm]]
        have "decode_utf8 Strict (take m (drop 0 bs)) = Inr [c]"
          by (simp add: Cons True)
        then show ?thesis by blast
      next
        case False
        with less.prems(2) t have "c \<in> set t'" by simp
        from tl [OF t' this m] show ?thesis .
      qed
    qed
  qed
qed

lemma lazy_complete:
  "ci_equal INFO_CLOSE cl \<Longrightarrow> lazy_until_close (inner @ cl @ post) \<noteq> None"
proof (induction inner)
  case Nil
  then have "ci_prefix INFO_CLOSE (cl @ post)" "cl \<noteq> []"
    by (auto simp: ci_equal_def ci_prefix_append INFO_CLOSE_def)
  then show ?case by (cases cl) auto
next
  case (Cons c inner)
  then show ?case by simp
qed

lemma search_complete:
  assumes "ci_equal INFO_OPEN op" and "ci_equal INFO_CLOSE cl"
  shows "INFO_RE_search (pre @ op @ inner @ cl @ post) \<noteq> None"
proof (induction pre)
  case Nil
  from assms(1) have len: "length op = length INFO_OPEN"
    and pre: "ci_prefix INFO_OPEN (op @ inner @ cl @ post)"
    by (simp_all add: ci_equal_def ci_prefix_append)
  from len obtain c cs where op: "op = c # cs"
    by (cases op) (auto simp: INFO_OPEN_def)
  have d: "drop (length INFO_OPEN) (c # cs @ inner @ cl @ post) = inner @ cl @ post"
    by (simp add: len [symmetric] op)
  from pre lazy_complete [OF assms(2), of inner post] show ?case
    by (auto simp: op d)
next
  case (Cons c pre)
  then show ?case by (auto split: option.splits)
qed

section \<open>Properties of the model page\<close>

lemma unescape_escape: "unescape (escape s) = s"
  by (induction s) (auto simp: escape_Cons)

lemma markup_chars_append [simp]: "markup_chars (a @ b) = markup_chars a @ markup_chars b"
  by (simp add: markup_chars_def)

lemma markup_chars_Nil [simp]: "markup_chars [] = []"
  by (simp add: markup_chars_def)

lemma markup_chars_Cons [simp]:
  "markup_chars (c # s) =
     (if c = 60 \<or> c = 62 \<or> c = 34 \<or> c = 39 then c # markup_chars s else markup_chars s)"
  by (simp add: markup_chars_def)

lemma escape_no_markup [simp]: "markup_chars (escape s) = []"
  by (induction s) (auto simp: escape_Cons)

lemma no_lt_escape: "60 \<notin> set (escape s)"
  by (induction s) (auto simp: escape_Cons)

lemma sublist_skip:
  "\<not> match_begins p a \<Longrightarrow> sublist p (a @ b) \<longleftrightarrow> sublist p b"
proof (induction a)
  case Nil
  then show ?case by simp
next
  case (Cons c a)
  then have "\<not> prefix p (c # a)" "\<not> prefix (c # a) p" "\<not> match_begins p a"
    by auto
  then have "\<not> prefix p (c # a @ b)"
    by (metis append_Cons prefix_append prefixI)
  with Cons.IH \<open>\<not> match_begins p a\<close> show ?case
    by (simp add: sublist_Cons_right)
qed

lemma not_sublist_skipI:
  "\<not> match_begins p a \<Longrightarrow> \<not> sublist p b \<Longrightarrow> \<not> sublist p (a @ b)"
  by (simp add: sublist_skip)

lemma sublist_skipI:
  "\<not> match_begins p a \<Longrightarrow> sublist p b \<Longrightarrow> sublist p (a @ b)"
  by (simp add: sublist_skip)

lemma not_sublist_last:
  "\<not> match_begins p a \<Longrightarrow> \<not> sublist p [] \<Longrightarrow> \<not> sublist p a"
  using not_sublist_skipI [of p a "[]"] by simp

lemma no_match_without_head:
  "c \<notin> set a \<Longrightarrow> \<not> match_begins (c # q) a"
  by (induction a) auto

lemma no_match_escape [simp]: "\<not> match_begins (60 # q) (escape s)"
  by (rule no_match_without_head [OF no_lt_escape])

lemma sublist_hereI:
  "suffix x1 a \<Longrightarrow> prefix x3 b \<Longrightarrow> sublist (x1 @ e @ x3) (a @ e @ b)"
  unfolding suffix_def prefix_def sublist_def
  by (metis append.assoc)

lemma sublist_hereI':
  "suffix x1 a \<Longrightarrow> prefix x3 b \<Longrightarrow> sublist (x1 @ e @ x3) (a @ e @ b @ r)"
  using sublist_hereI [of x1 a x3 "b @ r" e] by (auto simp: prefix_def)

lemma title_in_page:
  \<open>sublist (str ''<title>'' @ escape title @ str ''</title>'')
     (render_model_page title model_rel info_html image_src stylesheet_href back_href netlogo_url)\<close>
  unfolding render_model_page_def Let_def
  apply ((rule sublist_skipI, (simp; fail))+)
  apply (rule sublist_hereI')
   apply (simp_all add: suffix_to_prefix)
  done

lemma h1_in_page:
  \<open>sublist (str ''<h1>'' @ escape title @ str ''</h1>'')
     (render_model_page title model_rel info_html image_src stylesheet_href back_href netlogo_url)\<close>
  unfolding render_model_page_def Let_def
  apply ((rule sublist_skipI, (simp; fail))+)
  apply (rule sublist_hereI')
   apply (simp_all add: suffix_to_prefix)
  done

lemma stylesheet_in_page:
  \<open>sublist (str ''<link rel="stylesheet" href="'' @ escape stylesheet_href @ str ''" />'')
     (render_model_page title model_rel info_html image_src stylesheet_href back_href netlogo_url)\<close>
  unfolding render_model_page_def Let_def
  apply ((rule sublist_skipI, (simp; fail))+)
  apply (rule sublist_hereI')
   apply (simp_all add: suffix_to_prefix)
  done

lemma back_link_in_page:
  \<open>sublist (str ''<a class="back-link" href="'' @ escape back_href @ str ''">'')
     (render_model_page title model_rel info_html image_src stylesheet_href back_href netlogo_url)\<close>
  unfolding render_model_page_def Let_def
  apply ((rule sublist_skipI, (simp; fail))+)
  apply (rule sublist_hereI')
   apply (simp_all add: suffix_to_prefix)
  done

lemma run_url_in_page:
  \<open>sublist (str ''<a class="run-button" href="'' @ escape netlogo_url @ str ''" target="_blank"'')
     (render_model_page title model_rel info_html image_src stylesheet_href back_href netlogo_url)\<close>
  unfolding render_model_page_def Let_def
  apply ((rule sublist_skipI, (simp; fail))+)
  apply (rule sublist_hereI')
   apply (simp_all add: suffix_to_prefix)
  done

lemma image_html_Some:
  \<open>(case Some (c # src) of
       None \<Rightarrow> []
     | Some src \<Rightarrow>
         if src \<noteq> []
         then str ''<img src="'' @ escape src @ str ''" ''
              @ str ''alt="Screenshot of '' @ t @ str ''" />''
         else [])
    = str ''<img src="'' @ escape (c # src) @ str ''" alt="Screenshot of '' @ t @ str ''" />''\<close>
  by simp

lemma image_in_page:
  \<open>sublist (str ''<img src="'' @ escape (c # src) @ str ''" alt="Screenshot of '' @ escape title
            @ str ''" />'')
     (render_model_page title model_rel info_html (Some (c # src))
        stylesheet_href back_href netlogo_url)\<close>
  unfolding render_model_page_def Let_def image_html_Some
  apply ((rule sublist_skipI, (simp; fail))+)
  apply (rule sublist_append_rightI)
  done

lemma markup_chars_page_Some:
  \<open>markup_chars (render_model_page title model_rel info_html (Some (c # src))
                   stylesheet_href back_href netlogo_url)
     = markup_chars (render_model_page [] model_rel info_html (Some [0]) [] [] [])\<close>
  unfolding render_model_page_def Let_def image_html_Some markup_chars_append escape_no_markup
  by simp

lemma markup_chars_page_None:
  \<open>markup_chars (render_model_page title model_rel info_html None
                   stylesheet_href back_href netlogo_url)
     = markup_chars (render_model_page [] model_rel info_html None [] [] [])\<close>
  unfolding render_model_page_def Let_def option.case markup_chars_append escape_no_markup
  by simp


lemma image_html_cases:
  \<open>(case image_src of
       None \<Rightarrow> []
     | Some src \<Rightarrow>
         if src \<noteq> []
         then str ''<img src="'' @ escape src @ str ''" ''
              @ str ''alt="Screenshot of '' @ t @ str ''" />''
         else []) = [] \<or>
    (\<exists>src. (case image_src of
       None \<Rightarrow> []
     | Some src \<Rightarrow>
         if src \<noteq> []
         then str ''<img src="'' @ escape src @ str ''" ''
              @ str ''alt="Screenshot of '' @ t @ str ''" />''
         else []) = str ''<img src="'' @ escape src @ str ''" '' @ str ''alt="Screenshot of '' @ t @ str ''" />'')\<close>
  by (cases image_src) auto

lemma info_block_empty:
  "(if ([] :: pystr) \<noteq> [] then [] else x) = x"
  by simp

lemma placeholder_in_page:
  \<open>sublist (str ''<div class="model-info">'' @ str ''<p><em>No info tab found.</em></p>''
            @ str ''</div>'')
     (render_model_page title model_rel [] image_src stylesheet_href back_href netlogo_url)\<close>
proof -
  from image_html_cases [where image_src = image_src and t = "escape title"] show ?thesis
  proof (elim disjE exE)
    assume e: \<open>(case image_src of
       None \<Rightarrow> []
     | Some src \<Rightarrow>
         if src \<noteq> []
         then str ''<img src="'' @ escape src @ str ''" ''
              @ str ''alt="Screenshot of '' @ escape title @ str ''" />''
         else []) = []\<close>
    show ?thesis
      unfolding render_model_page_def Let_def e info_block_empty
      apply ((rule sublist_skipI, (simp; fail))+)
      apply (rule sublist_hereI')
       apply (simp_all add: suffix_to_prefix)
      done
  next
    fix src
    assume e: \<open>(case image_src of
       None \<Rightarrow> []
     | Some src \<Rightarrow>
         if src \<noteq> []
         then str ''<img src="'' @ escape src @ str ''" ''
              @ str ''alt="Screenshot of '' @ escape title @ str ''" />''
         else []) = str ''<img src="'' @ escape src @ str ''" '' @ str ''alt="Screenshot of '' @ escape title @ str ''" />''\<close>
    show ?thesis
      unfolding render_model_page_def Let_def e info_block_empty append_assoc
      apply ((rule sublist_skipI, (simp; fail))+)
      apply (rule sublist_hereI')
       apply (simp_all add: suffix_to_prefix)
      done
  qed
qed

lemma no_empty_container:
  \<open>\<not> sublist (str ''<div class="model-info"></div>'')
     (render_model_page title model_rel [] image_src stylesheet_href back_href netlogo_url)\<close>
proof -
  from image_html_cases [where image_src = image_src and t = "escape title"] show ?thesis
  proof (elim disjE exE)
    assume e: \<open>(case image_src of
       None \<Rightarrow> []
     | Some src \<Rightarrow>
         if src \<noteq> []
         then str ''<img src="'' @ escape src @ str ''" ''
              @ str ''alt="Screenshot of '' @ escape title @ str ''" />''
         else []) = []\<close>
    show ?thesis
      unfolding render_model_page_def Let_def e info_block_empty
      apply ((rule not_sublist_skipI, (simp; fail))+)
      apply (simp add: sublist_Cons_right)
      done
  next
    fix src
    assume e: \<open>(case image_src of
       None \<Rightarrow> []
     | Some src \<Rightarrow>
         if src \<noteq> []
         then str ''<img src="'' @ escape src @ str ''" ''
              @ str ''alt="Screenshot of '' @ escape title @ str ''" />''
         else []) = str ''<img src="'' @ escape src @ str ''" '' @ str ''alt="Screenshot of '' @ escape title @ str ''" />''\<close>
    show ?thesis
      unfolding render_model_page_def Let_def e info_block_empty append_assoc
      apply ((rule not_sublist_skipI, (simp; fail))+)
      apply (simp add: sublist_Cons_right)
      done
  qed
qed



section \<open>Properties of the tree builder\<close>

lemma update_absent:
  "k \<notin> fst ` set al \<Longrightarrow> AList.update k v al = al @ [(k, v)]"
  by (induction al) auto

lemma update_appended:
  "k \<notin> fst ` set al \<Longrightarrow> AList.update k v (al @ [(k, w)]) = al @ [(k, v)]"
  by (induction al) auto

lemma add_to_tree_folder:
  "rest \<noteq> [] \<Longrightarrow>
   add_to_tree t (folder # rest) path =
     (case add_to_tree (node_or_empty t [folder]) rest path of
        Inl e \<Rightarrow> Inl e
      | Inr s' \<Rightarrow> Inr (Tree (Some (AList.update folder s' (get_or_empty (children t)))) (files t)))"
proof -
  assume "rest \<noteq> []"
  then obtain r rs where rest: "rest = r # rs" by (cases rest) auto
  show ?thesis
  proof (cases "map_of (get_or_empty (children t)) folder")
    case None
    then have "folder \<notin> fst ` set (get_or_empty (children t))"
      by (simp add: map_of_eq_None_iff)
    with None show ?thesis
      by (simp add: rest node_or_empty_def Let_def update_appended update_absent map_add_def
          split: sum.splits)
  next
    case (Some s)
    then have "folder \<in> fst ` set (get_or_empty (children t))"
      by (metis map_of_eq_None_iff option.distinct(1))
    with Some show ?thesis
      by (simp add: rest node_or_empty_def Let_def split: sum.splits)
  qed
qed

lemma subtree_at_empty: "ks \<noteq> [] \<Longrightarrow> subtree_at (Tree None None) ks = None"
  by (cases ks) (auto simp: get_or_empty_def)

lemma node_or_empty_empty [simp]: "node_or_empty (Tree None None) ks = Tree None None"
  by (cases ks) (auto simp: node_or_empty_def get_or_empty_def)

lemma node_or_empty_Cons:
  "node_or_empty t (k # ks) = node_or_empty (node_or_empty t [k]) ks"
  by (auto simp: node_or_empty_def subtree_at_empty split: option.splits) (cases ks; auto simp: get_or_empty_def)

lemma subtree_at_Cons_node:
  "subtree_at t (k # ks) =
     (if map_of (get_or_empty (children t)) k = None then None
      else subtree_at (node_or_empty t [k]) ks)"
  by (auto simp: node_or_empty_def split: option.splits)

lemma subtree_at_updated:
  "subtree_at (Tree (Some (AList.update k s al)) fs) (k' # ks) =
     (if k' = k then subtree_at s ks
      else subtree_at (Tree (Some al) fs) (k' # ks))"
  by (simp add: get_or_empty_def update_conv')

lemma add_to_tree_effect:
  assumes "parts \<noteq> []"
  shows "\<exists>t'. add_to_tree t parts path = Inr t' \<and>
     (\<forall>ks. \<not> prefix ks (butlast parts) \<longrightarrow> subtree_at t' ks = subtree_at t ks) \<and>
     (\<forall>ks. strict_prefix ks (butlast parts) \<longrightarrow>
        (\<exists>n'. subtree_at t' ks = Some n' \<and> files n' = files (node_or_empty t ks) \<and>
           map fst (get_or_empty (children n')) =
             (let keys = map fst (get_or_empty (children (node_or_empty t ks)));
                  k = parts ! length ks
              in if k \<in> set keys then keys else keys @ [k]))) \<and>
     (\<exists>n'. subtree_at t' (butlast parts) = Some n' \<and>
        files n' = Some (get_or_empty (files (node_or_empty t (butlast parts)))
                         @ [FileItem (last parts) path]) \<and>
        children n' = children (node_or_empty t (butlast parts)))"
  using assms
proof (induction parts arbitrary: t)
  case Nil
  then show ?case by simp
next
  case (Cons p rest)
  show ?case
  proof (cases "rest = []")
    case True
    have "subtree_at (Tree (children t) fs) ks = subtree_at t ks" if "ks \<noteq> []" for fs ks
      using that by (cases ks) auto
    then show ?thesis
      using True by (auto simp: node_or_empty_def)
  next
    case False
    define c where "c = node_or_empty t [p]"
    define al where "al = get_or_empty (children t)"
    from Cons.IH [OF False, of c] obtain s' where
      add: "add_to_tree c rest path = Inr s'"
      and off: "\<And>ks. \<not> prefix ks (butlast rest) \<Longrightarrow> subtree_at s' ks = subtree_at c ks"
      and mid: "\<And>ks. strict_prefix ks (butlast rest) \<Longrightarrow>
        \<exists>n'. subtree_at s' ks = Some n' \<and> files n' = files (node_or_empty c ks) \<and>
           map fst (get_or_empty (children n')) =
             (let keys = map fst (get_or_empty (children (node_or_empty c ks)));
                  k = rest ! length ks
              in if k \<in> set keys then keys else keys @ [k])"
      and tgt: "\<exists>n'. subtree_at s' (butlast rest) = Some n' \<and>
        files n' = Some (get_or_empty (files (node_or_empty c (butlast rest)))
                         @ [FileItem (last rest) path]) \<and>
        children n' = children (node_or_empty c (butlast rest))"
      by blast
    define t' where "t' = Tree (Some (AList.update p s' al)) (files t)"
    have res: "add_to_tree t (p # rest) path = Inr t'"
      by (simp add: add_to_tree_folder [OF False] add c_def [symmetric] t'_def al_def)
    have bl: "butlast (p # rest) = p # butlast rest" and la: "last (p # rest) = last rest"
      using False by auto
    have t_eq: "subtree_at (Tree (Some al) (files t)) (k # ks) = subtree_at t (k # ks)" for k ks
      by (auto simp: al_def get_or_empty_def split: option.splits)
    have c_sub: "subtree_at t (p # ks) = subtree_at c ks" if "ks \<noteq> []" for ks
      using that
      by (cases ks) (auto simp: c_def node_or_empty_def get_or_empty_def split: option.splits)
    have c_node: "node_or_empty t (p # ks) = node_or_empty c ks" for ks
      unfolding c_def by (rule node_or_empty_Cons)
    have 1: "subtree_at t' ks = subtree_at t ks" if "\<not> prefix ks (butlast (p # rest))" for ks
    proof (cases ks)
      case Nil
      with that show ?thesis by simp
    next
      case (Cons k ks')
      show ?thesis
      proof (cases "k = p")
        case True
        with that Cons bl have np: "\<not> prefix ks' (butlast rest)" by simp
        then have "ks' \<noteq> []" by auto
        with np show ?thesis
          by (simp del: subtree_at.simps(2) add: Cons True t'_def subtree_at_updated off c_sub)
      next
        case False
        then show ?thesis
          by (simp del: subtree_at.simps(2) add: Cons t'_def subtree_at_updated t_eq)
      qed
    qed
    have keys: "map fst (AList.update p s' al) =
        (if p \<in> set (map fst al) then map fst al else map fst al @ [p])"
      by (simp add: update_keys)
    have 2: "\<exists>n'. subtree_at t' ks = Some n' \<and> files n' = files (node_or_empty t ks) \<and>
           map fst (get_or_empty (children n')) =
             (let keys = map fst (get_or_empty (children (node_or_empty t ks)));
                  k = (p # rest) ! length ks
              in if k \<in> set keys then keys else keys @ [k])"
      if "strict_prefix ks (butlast (p # rest))" for ks
    proof (cases ks)
      case Nil
      then show ?thesis
        using keys by (simp add: t'_def node_or_empty_def get_or_empty_def al_def Let_def)
    next
      case (Cons k ks')
      with that bl have "k = p" and "strict_prefix ks' (butlast rest)"
        by (auto simp: strict_prefix_def)
      with mid [of ks'] show ?thesis
        by (simp del: subtree_at.simps(2) add: Cons t'_def subtree_at_updated c_node)
    qed
    have 3: "\<exists>n'. subtree_at t' (butlast (p # rest)) = Some n' \<and>
        files n' = Some (get_or_empty (files (node_or_empty t (butlast (p # rest))))
                         @ [FileItem (last (p # rest)) path]) \<and>
        children n' = children (node_or_empty t (butlast (p # rest)))"
      using tgt False
      by (simp del: subtree_at.simps(2) add: t'_def subtree_at_updated c_node)
    from res 1 2 3 show ?thesis by blast
  qed
qed

text \<open>
  Claim C10. For every tree and every non-empty list of path segments, \<open>add_to_tree\<close>
  returns a tree: the recursion is on the list of segments and no exception is raised.
  It changes only the nodes on the path of the folder segments \<open>butlast parts\<close>:
  every node that is not on that path, in particular every child whose name differs from
  the segment followed at its level, is the node it was; every node strictly above the
  target keeps its \<open>files\<close> entry, and its dictionary of children keeps its keys in
  their order, the followed segment being appended when it is new; the target node keeps
  its \<open>children\<close> entry, and its list of files is the old list with exactly the one
  record \<open>{name, path}\<close> for the last segment appended.
\<close>

theorem add_to_tree_frame:
  assumes "parts \<noteq> []"
  shows "\<exists>t'. add_to_tree t parts path = Inr t' \<and>
     (\<forall>ks. \<not> prefix ks (butlast parts) \<longrightarrow> subtree_at t' ks = subtree_at t ks) \<and>
     (\<forall>ks. strict_prefix ks (butlast parts) \<longrightarrow>
        (\<exists>n'. subtree_at t' ks = Some n' \<and> files n' = files (node_or_empty t ks) \<and>
           map fst (get_or_empty (children n')) =
             (let keys = map fst (get_or_empty (children (node_or_empty t ks)));
                  k = parts ! length ks
              in if k \<in> set keys then keys else keys @ [k]))) \<and>
     (\<exists>n'. subtree_at t' (butlast parts) = Some n' \<and>
        files n' = Some (get_or_empty (files (node_or_empty t (butlast parts)))
                         @ [FileItem (last parts) path]) \<and>
        children n' = children (node_or_empty t (butlast parts)))"
  using assms by (rule add_to_tree_effect)

theorem add_to_tree_frame_witness:
  "[str ''Biology'', str ''Ants.nlogox''] \<noteq> [] \<and>
   (\<exists>t'. add_to_tree (Tree (Some [(str ''Art'', Tree None None)]) None)
           [str ''Biology'', str ''Ants.nlogox''] (str ''models/Biology/Ants.html'') = Inr t' \<and>
     (\<forall>ks. \<not> prefix ks (butlast [str ''Biology'', str ''Ants.nlogox'']) \<longrightarrow>
        subtree_at t' ks = subtree_at (Tree (Some [(str ''Art'', Tree None None)]) None) ks) \<and>
     (\<forall>ks. strict_prefix ks (butlast [str ''Biology'', str ''Ants.nlogox'']) \<longrightarrow>
        (\<exists>n'. subtree_at t' ks = Some n' \<and>
           files n' = files (node_or_empty (Tree (Some [(str ''Art'', Tree None None)]) None) ks) \<and>
           map fst (get_or_empty (children n')) =
             (let keys = map fst (get_or_empty (children
                          (node_or_empty (Tree (Some [(str ''Art'', Tree None None)]) None) ks)));
                  k = [str ''Biology'', str ''Ants.nlogox''] ! length ks
              in if k \<in> set keys then keys else keys @ [k]))) \<and>
     (\<exists>n'. subtree_at t' (butlast [str ''Biology'', str ''Ants.nlogox'']) = Some n' \<and>
        files n' = Some (get_or_empty (files (node_or_empty
                      (Tree (Some [(str ''Art'', Tree None None)]) None)
                      (butlast [str ''Biology'', str ''Ants.nlogox''])))
                    @ [FileItem (last [str ''Biology'', str ''Ants.nlogox''])
                         (str ''models/Biology/Ants.html'')]) \<and>
        children n' = children (node_or_empty (Tree (Some [(str ''Art'', Tree None None)]) None)
                        (butlast [str ''Biology'', str ''Ants.nlogox'']))))"
proof -
  have h: "[str ''Biology'', str ''Ants.nlogox''] \<noteq> []" by simp
  show ?thesis by (rule conjI [OF h add_to_tree_frame [OF h]])
qed

section \<open>Properties of the tree renderer\<close>

declare render_tree.simps [simp del]

lemma render_tree_Tree:
  "render_tree lower (Tree ch fs) pfx open_root =
     join [10]
       ([str ''<ul>'']
        @ concat (map (\<lambda>(folder, subtree).
            [folder_open open_root folder,
             render_tree lower subtree (pfx @ folder @ str ''/'') False,
             str ''</details></li>'']) (sorted_folders lower (Tree ch fs)))
        @ map file_entry (sorted_files lower (Tree ch fs))
        @ [str ''</ul>''])"
  by (subst render_tree.simps) (simp add: Let_def)

text \<open>
  Claim C6, as the code has it, for every lower-casing function \<open>lower\<close> and so for
  \<open>str.lower\<close>. In the lines \<open>render_tree\<close> emits for a node, the blocks of the subfolders come
  first and the entries of the files after them; the subfolders are in non-decreasing
  order of their lowered names and the files in non-decreasing order of their lowered
  stored names, which include the extension (strings are compared as Python compares
  them, character by character); both sequences are rearrangements of what the node
  holds, and entries whose lowered names are equal keep the order in which the node holds
  them. Each subfolder's block contains \<open>render_tree\<close> of its node, so the same holds at every
  nesting level.
\<close>

theorem render_tree_sorted:
  "render_tree lower t pfx open_root =
     join [10]
       ([str ''<ul>'']
        @ concat (map (\<lambda>(folder, subtree).
            [folder_open open_root folder,
             render_tree lower subtree (pfx @ folder @ str ''/'') False,
             str ''</details></li>'']) (sorted_folders lower t))
        @ map file_entry (sorted_files lower t)
        @ [str ''</ul>''])
   \<and> sorted (map (\<lambda>item. lower (fst item)) (sorted_folders lower t))
   \<and> mset (sorted_folders lower t) = mset (get_or_empty (children t))
   \<and> (\<forall>k. filter (\<lambda>item. lower (fst item) = k) (sorted_folders lower t)
            = filter (\<lambda>item. lower (fst item) = k) (get_or_empty (children t)))
   \<and> sorted (map (\<lambda>item. lower (item_name item)) (sorted_files lower t))
   \<and> mset (sorted_files lower t) = mset (get_or_empty (files t))
   \<and> (\<forall>k. filter (\<lambda>item. lower (item_name item) = k) (sorted_files lower t)
            = filter (\<lambda>item. lower (item_name item) = k) (get_or_empty (files t)))"
  by (cases t) (simp add: render_tree_Tree sorted_folders_def sorted_files_def sort_key_stable)

text \<open>
  The names displayed are the stored names without \<open>.nlogox\<close>, and these need not be in
  order: a space sorts before the dot of the extension, so \<open>Ants 2.nlogox\<close> is placed
  before \<open>Ants.nlogox\<close> and the page lists \<open>Ants 2\<close> before \<open>Ants\<close>. The names are ASCII, on
  which \<open>str.lower\<close> is \<open>ascii_lower\<close>.
\<close>

theorem render_tree_display_order_counterexample:
  \<open>render_tree ascii_lower (Tree None (Some [FileItem (str ''Ants.nlogox'') (str ''models/Ants.html''),
                                 FileItem (str ''Ants 2.nlogox'') (str ''models/Ants 2.html'')])) [] False
     = str ''<ul>\<newline><li><a href="models/Ants 2.html" target="_blank" rel="noopener"><img class="icon file-icon" src="assets/model.png" alt="" />Ants 2</a></li>\<newline><li><a href="models/Ants.html" target="_blank" rel="noopener"><img class="icon file-icon" src="assets/model.png" alt="" />Ants</a></li>\<newline></ul>''
   \<and> \<not> sorted (map ascii_lower [str ''Ants 2'', str ''Ants''])\<close>
  by (simp add: render_tree_Tree sorted_folders_def sorted_files_def get_or_empty_def
      file_entry_def display_name_def escape_Cons Let_def ascii_lower_def lower_char_def)

text \<open>
  Claim C9 at the file name \<open>a.nlogox.nlogox\<close>: the link is the stored path, but the name
  displayed is \<open>a\<close>, since \<open>replace\<close> removes every occurrence of \<open>.nlogox\<close> and not only
  the trailing one (the title of the page of the same file is its stem \<open>a.nlogox\<close>).
\<close>

theorem render_tree_strips_every_occurrence:
  \<open>display_name (FileItem (str ''a.nlogox.nlogox'') (str ''models/a.nlogox.html'')) = str ''a'' \<and>
   path_stem [str ''a.nlogox.nlogox''] = str ''a.nlogox'' \<and>
   render_tree lower (Tree None (Some [FileItem (str ''a.nlogox.nlogox'') (str ''models/a.nlogox.html'')])) [] False
     = str ''<ul>\<newline><li><a href="models/a.nlogox.html" target="_blank" rel="noopener"><img class="icon file-icon" src="assets/model.png" alt="" />a</a></li>\<newline></ul>''\<close>
  by (simp add: render_tree_Tree sorted_folders_def sorted_files_def get_or_empty_def
      file_entry_def display_name_def escape_Cons Let_def path_stem_def path_name_def rfind_def)

section \<open>Order of insertion\<close>






















section \<open>The claims on the extractor\<close>

text \<open>
  Claim C1. Let the text of a model file, as \<open>extract_info\<close> reads it, contain a
  documentation block: an occurrence \<open>op\<close> of the opening delimiter \<open><info><![CDATA[\<close> in any
  letter case, an inner text, and an occurrence \<open>cl\<close> of the closing delimiter
  \<open>]]></info>\<close> in any letter case, where \<open>op\<close> is the first occurrence of the opening
  delimiter in the text and \<open>cl\<close> the first occurrence of the closing delimiter after it.
  Then \<open>extract_info\<close> returns the inner text with the white space at both ends removed,
  whatever stands before the block, inside it (line breaks included) and after it: the
  result is the inner text without a leading and a trailing run of white space, and it
  neither begins nor ends with white space.
\<close>

theorem extract_info_first_block:
  assumes "read_text fs model_path Ignore = Inr (pre @ op @ inner @ cl @ post)"
    and "ci_equal INFO_OPEN op"
    and "ci_equal INFO_CLOSE cl"
    and "\<forall>i < length pre. \<not> ci_prefix INFO_OPEN (drop i (pre @ op @ inner @ cl @ post))"
    and "\<forall>i < length inner. \<not> ci_prefix INFO_CLOSE (drop i (inner @ cl @ post))"
  shows "extract_info fs model_path = Inr (strip inner) \<and>
         (\<exists>ws1 ws2. inner = ws1 @ strip inner @ ws2 \<and>
                     list_all isspace ws1 \<and> list_all isspace ws2) \<and>
         (strip inner = [] \<or>
          \<not> isspace (hd (strip inner)) \<and> \<not> isspace (last (strip inner)))"
proof -
  have "INFO_RE_search (pre @ op @ inner @ cl @ post) = Some inner"
    by (rule search_first [OF assms(4) assms(2) assms(5) assms(3)])
  with assms(1) have "extract_info fs model_path = Inr (strip inner)"
    by (simp add: extract_info_def)
  with strip_decomp [of inner] strip_ends [of inner] show ?thesis by blast
qed

theorem extract_info_first_block_witness:
  "extract_info
     [([str ''models'', str ''Ants.nlogox''],
       ascii ''<model>\<newline><INFO><![cdata[ # Ants\<newline>\<newline>Text ]]></Info>\<newline><x>]]></info>'')]
     [str ''models'', str ''Ants.nlogox'']
   = Inr (strip (str '' # Ants\<newline>\<newline>Text '')) \<and>
   strip (str '' # Ants\<newline>\<newline>Text '') = str ''# Ants\<newline>\<newline>Text''"
proof -
  let ?fs = "[([str ''models'', str ''Ants.nlogox''],
       ascii ''<model>\<newline><INFO><![cdata[ # Ants\<newline>\<newline>Text ]]></Info>\<newline><x>]]></info>'')]"
  let ?p = "[str ''models'', str ''Ants.nlogox'']"
  have 1: "read_text ?fs ?p Ignore =
      Inr (str ''<model>\<newline>'' @ str ''<INFO><![cdata['' @ str '' # Ants\<newline>\<newline>Text ''
           @ str '']]></Info>'' @ str ''\<newline><x>]]></info>'')"
    by (simp add: read_text_def ascii_def universal_newlines_def)
  have 2: "ci_equal INFO_OPEN (str ''<INFO><![cdata['')"
    by (simp add: ci_equal_def INFO_OPEN_def ci_match_def lower_char_def)
  have 3: "ci_equal INFO_CLOSE (str '']]></Info>'')"
    by (simp add: ci_equal_def INFO_CLOSE_def ci_match_def lower_char_def)
  have 4: "\<forall>i < length (str ''<model>\<newline>'').
      \<not> ci_prefix INFO_OPEN (drop i (str ''<model>\<newline>'' @ str ''<INFO><![cdata[''
        @ str '' # Ants\<newline>\<newline>Text '' @ str '']]></Info>'' @ str ''\<newline><x>]]></info>''))"
    by (simp add: All_less_Suc INFO_OPEN_def ci_match_def lower_char_def)
  have 5: "\<forall>i < length (str '' # Ants\<newline>\<newline>Text '').
      \<not> ci_prefix INFO_CLOSE (drop i (str '' # Ants\<newline>\<newline>Text '' @ str '']]></Info>''
        @ str ''\<newline><x>]]></info>''))"
    by (simp add: All_less_Suc INFO_CLOSE_def ci_match_def lower_char_def)
  have 6: "strip (str '' # Ants\<newline>\<newline>Text '') = str ''# Ants\<newline>\<newline>Text''"
    by (simp add: strip_def isspace_def)
  from extract_info_first_block [OF 1 2 3 4 5] 6 show ?thesis by blast
qed

text \<open>
  Claim C2. When the text of a model file contains no opening delimiter that is followed
  by a closing delimiter, \<open>extract_info\<close> returns the empty string and raises nothing. The
  Markdown library renders the empty string as the empty string; the page of such a model
  then holds the paragraph \<open>No info tab found.\<close> inside the documentation container, and
  it has no empty documentation container.
\<close>

theorem extract_info_without_block:
  assumes "read_text fs model_path Ignore = Inr text"
    and "\<not> (\<exists>pre op inner cl post. text = pre @ op @ inner @ cl @ post \<and>
              ci_equal INFO_OPEN op \<and> ci_equal INFO_CLOSE cl)"
    and "markdown [] = []"
  shows \<open>extract_info fs model_path = Inr [] \<and>
         sublist (str ''<div class="model-info">'' @ str ''<p><em>No info tab found.</em></p>''
                  @ str ''</div>'')
           (render_model_page title model_rel (markdown []) image_src
              stylesheet_href back_href netlogo_url) \<and>
         \<not> sublist (str ''<div class="model-info"></div>'')
           (render_model_page title model_rel (markdown []) image_src
              stylesheet_href back_href netlogo_url)\<close>
proof -
  have "INFO_RE_search text = None"
  proof (cases "INFO_RE_search text")
    case None
    then show ?thesis .
  next
    case (Some g)
    from search_sound [OF this] assms(2) show ?thesis by blast
  qed
  with assms(1) have "extract_info fs model_path = Inr []"
    by (simp add: extract_info_def)
  then show ?thesis
    unfolding assms(3) using placeholder_in_page no_empty_container by blast
qed

theorem extract_info_without_block_witness:
  \<open>extract_info
     [([str ''models'', str ''Ants.nlogox''], ascii ''<model><info>no block</info></model>'')]
     [str ''models'', str ''Ants.nlogox''] = Inr [] \<and>
   sublist (str ''<div class="model-info">'' @ str ''<p><em>No info tab found.</em></p>''
            @ str ''</div>'')
     (render_model_page (str ''Ants'') [str ''Ants.nlogox'']
        ((\<lambda>s. if s = [] then [] else str ''<p>'' @ s @ str ''</p>'') []) None
        (str ''../styles.css'') (str ''../index.html'') (str ''https://netlogoweb.org/'')) \<and>
   \<not> sublist (str ''<div class="model-info"></div>'')
     (render_model_page (str ''Ants'') [str ''Ants.nlogox'']
        ((\<lambda>s. if s = [] then [] else str ''<p>'' @ s @ str ''</p>'') []) None
        (str ''../styles.css'') (str ''../index.html'') (str ''https://netlogoweb.org/''))\<close>
proof -
  let ?text = "str ''<model><info>no block</info></model>''"
  have 1: "read_text
     [([str ''models'', str ''Ants.nlogox''], ascii ''<model><info>no block</info></model>'')]
     [str ''models'', str ''Ants.nlogox''] Ignore = Inr ?text"
    by (simp add: read_text_def ascii_def universal_newlines_def)
  have "INFO_RE_search ?text = None"
    by (simp add: INFO_OPEN_def ci_match_def lower_char_def)
  with search_complete have 2:
    "\<not> (\<exists>pre op inner cl post. ?text = pre @ op @ inner @ cl @ post \<and>
          ci_equal INFO_OPEN op \<and> ci_equal INFO_CLOSE cl)"
    by metis
  have 3: "(\<lambda>s. if s = [] then [] else str ''<p>'' @ s @ str ''</p>'') [] = ([] :: pystr)"
    by simp
  show ?thesis
    by (rule extract_info_without_block
          [where markdown = "\<lambda>s. if s = [] then [] else str ''<p>'' @ s @ str ''</p>''",
           OF 1 2 3])
qed

text \<open>
  Claim C3, as the code has it. \<open>extract_info\<close> reads with \<open>errors="ignore"\<close>: for every file
  that is there it returns a string, and no decoding error is raised. Bytes that cannot
  be decoded are left out of the text and nothing is put in their place. Let the bytes of
  the file be \<open>bytes1\<close>, \<open>junk\<close>, \<open>bytes2\<close>, where \<open>bytes1\<close> decodes cleanly to \<open>t1\<close>, no stretch
  of \<open>junk\<close> is the encoding of a character (a byte that starts no character, a
  continuation byte with nothing before it, a sequence cut short, an overlong form or a
  surrogate) and \<open>bytes2\<close> is empty or begins with a byte that is not a continuation byte.
  Then the text read is \<open>t1\<close> followed by the text of \<open>bytes2\<close>, \<open>extract_info\<close> returns what it
  returns for the file without \<open>junk\<close>, and the strict decoder raises \<open>UnicodeDecodeError\<close>
  on the file when \<open>junk\<close> is not empty. Moreover every character of a text decoded with
  \<open>errors="ignore"\<close> is the decoding of a stretch of the bytes: the decoder puts in no
  character of its own, U+FFFD or other.
\<close>

theorem extract_info_drops_undecodable:
  "(map_of fs model_path = Some bytes \<longrightarrow> (\<exists>info. extract_info fs model_path = Inr info)) \<and>
   (map_of fs' model_path' = Some (bytes1 @ junk @ bytes2) \<and>
    decode_utf8 Strict (map unat bytes1) = Inr t1 \<and>
    (\<forall>i n c. decode_utf8 Strict (take n (drop i (map unat junk))) \<noteq> Inr [c]) \<and>
    (bytes2 = [] \<or> \<not> is_continuation (unat (hd bytes2))) \<longrightarrow>
    (\<exists>t2. decode_utf8 Ignore (map unat bytes2) = Inr t2 \<and>
          read_text fs' model_path' Ignore = Inr (universal_newlines (t1 @ t2)) \<and>
          extract_info fs' model_path' = extract_info [(model_path', bytes1 @ bytes2)] model_path' \<and>
          (junk \<noteq> [] \<longrightarrow> read_text fs' model_path' Strict = Inl UnicodeDecodeError))) \<and>
   (decode_utf8 Ignore bs = Inr t \<and> c \<in> set t \<longrightarrow>
    (\<exists>i n. decode_utf8 Strict (take n (drop i bs)) = Inr [c]))"
proof (intro conjI impI)
  assume "map_of fs model_path = Some bytes"
  then show "\<exists>info. extract_info fs model_path = Inr info"
    by (rule extract_info_total)
next
  assume a: "map_of fs' model_path' = Some (bytes1 @ junk @ bytes2) \<and>
    decode_utf8 Strict (map unat bytes1) = Inr t1 \<and>
    (\<forall>i n c. decode_utf8 Strict (take n (drop i (map unat junk))) \<noteq> Inr [c]) \<and>
    (bytes2 = [] \<or> \<not> is_continuation (unat (hd bytes2)))"
  then have "map_of fs' model_path' = Some (bytes1 @ junk @ bytes2)"
    and "decode_utf8 Strict (map unat bytes1) = Inr t1"
    and "\<forall>i n c. decode_utf8 Strict (take n (drop i (map unat junk))) \<noteq> Inr [c]"
    and "bytes2 = [] \<or> \<not> is_continuation (unat (hd bytes2))"
    by blast+
  then show "\<exists>t2. decode_utf8 Ignore (map unat bytes2) = Inr t2 \<and>
          read_text fs' model_path' Ignore = Inr (universal_newlines (t1 @ t2)) \<and>
          extract_info fs' model_path' = extract_info [(model_path', bytes1 @ bytes2)] model_path' \<and>
          (junk \<noteq> [] \<longrightarrow> read_text fs' model_path' Strict = Inl UnicodeDecodeError)"
    by (rule read_text_drops)
next
  assume "decode_utf8 Ignore bs = Inr t \<and> c \<in> set t"
  then show "\<exists>i n. decode_utf8 Strict (take n (drop i bs)) = Inr [c]"
    using decode_ignore_chars by blast
qed

theorem extract_info_drops_undecodable_witness:
  "(\<exists>info. extract_info
      [([str ''models'', str ''Ants.nlogox''], ascii ''A'' @ [0xFF, 0xE2, 0x82] @ ascii ''B'')]
      [str ''models'', str ''Ants.nlogox''] = Inr info) \<and>
   (\<exists>t2. decode_utf8 Ignore (map unat (ascii ''B'')) = Inr t2 \<and>
      read_text
        [([str ''models'', str ''Ants.nlogox''], ascii ''A'' @ [0xFF, 0xE2, 0x82] @ ascii ''B'')]
        [str ''models'', str ''Ants.nlogox''] Ignore = Inr (universal_newlines (str ''A'' @ t2)) \<and>
      extract_info
        [([str ''models'', str ''Ants.nlogox''], ascii ''A'' @ [0xFF, 0xE2, 0x82] @ ascii ''B'')]
        [str ''models'', str ''Ants.nlogox''] =
      extract_info [([str ''models'', str ''Ants.nlogox''], ascii ''A'' @ ascii ''B'')]
        [str ''models'', str ''Ants.nlogox''] \<and>
      read_text
        [([str ''models'', str ''Ants.nlogox''], ascii ''A'' @ [0xFF, 0xE2, 0x82] @ ascii ''B'')]
        [str ''models'', str ''Ants.nlogox''] Strict = Inl UnicodeDecodeError) \<and>
   (\<exists>i n. decode_utf8 Strict (take n (drop i [65, 255, 226, 130, 66])) = Inr [66])"
proof -
  let ?fs = "[([str ''models'', str ''Ants.nlogox''], ascii ''A'' @ [0xFF, 0xE2, 0x82] @ ascii ''B'')]"
  let ?p = "[str ''models'', str ''Ants.nlogox'']"
  have 1: "map_of ?fs ?p = Some (ascii ''A'' @ [0xFF, 0xE2, 0x82] @ ascii ''B'')" by simp
  have 2: "decode_utf8 Strict (map unat (ascii ''A'')) = Inr (str ''A'')"
    by (simp add: ascii_def)
  have 3: "\<forall>i n c. decode_utf8 Strict (take n (drop i (map unat [0xFF, 0xE2, 0x82 :: byte])))
             \<noteq> Inr [c]"
    using no_character_example by simp
  have 4: "ascii ''B'' = [] \<or> \<not> is_continuation (unat (hd (ascii ''B'')))"
    by (simp add: ascii_def is_continuation_def)
  have 5: "[0xFF, 0xE2, 0x82 :: byte] \<noteq> []" by simp
  have 6: "decode_utf8 Ignore [65, 255, 226, 130, 66] = Inr [65, 66] \<and> 66 \<in> set [65, 66 :: nat]"
    by (simp add: is_continuation_def)
  from extract_info_drops_undecodable
    [of ?fs ?p "ascii ''A'' @ [0xFF, 0xE2, 0x82] @ ascii ''B''" ?fs ?p "ascii ''A''"
        "[0xFF, 0xE2, 0x82]" "ascii ''B''" "str ''A''" "[65, 255, 226, 130, 66]" "[65, 66]" 66]
    1 2 3 4 5 6
  show ?thesis by blast
qed

text \<open>
  The file with the bytes \<open>A\<close>, \<open>0xFF\<close>, \<open>0xE2\<close>, \<open>0x82\<close>, \<open>B\<close> (a byte that starts no character,
  then a three-byte sequence cut short) is read as \<open>AB\<close>: the text holds no replacement
  character U+FFFD. It would with the handler \<open>replace\<close>, which the program does not use.
\<close>

theorem read_text_replacement_counterexample:
  "read_text
     [([str ''models'', str ''Ants.nlogox''], ascii ''A'' @ [0xFF, 0xE2, 0x82] @ ascii ''B'')]
     [str ''models'', str ''Ants.nlogox''] Ignore = Inr (str ''AB'') \<and>
   65533 \<notin> set (str ''AB'') \<and>
   read_text
     [([str ''models'', str ''Ants.nlogox''], ascii ''A'' @ [0xFF, 0xE2, 0x82] @ ascii ''B'')]
     [str ''models'', str ''Ants.nlogox''] Replace = Inr [65, 65533, 65533, 66]"
  by (simp add: read_text_def ascii_def universal_newlines_def is_continuation_def)

section \<open>The claims on the page renderer\<close>

text \<open>
  Claim C4. \<open>html.escape\<close> loses nothing: reading the character references back gives the
  string that was escaped, for every string. An escaped string holds no angle bracket and
  no quote, and the angle brackets and quotes of the page of a model are the same for
  every title, stylesheet reference, back link, run URL and image source: the values
  interpolated bring no markup of their own into the document. The title (in the
  \<open>title\<close> element and in the heading), the stylesheet reference, the back link, the run URL
  and the image source with its alternative text stand in the document in escaped form.
\<close>

theorem escape_round_trip_and_page:
  \<open>unescape (escape x) = x \<and>
   markup_chars (escape x) = [] \<and>
   markup_chars (render_model_page title model_rel info_html (Some (c # src))
                   stylesheet_href back_href netlogo_url)
     = markup_chars (render_model_page [] model_rel info_html (Some [0]) [] [] []) \<and>
   markup_chars (render_model_page title model_rel info_html None
                   stylesheet_href back_href netlogo_url)
     = markup_chars (render_model_page [] model_rel info_html None [] [] []) \<and>
   sublist (str ''<title>'' @ escape title @ str ''</title>'')
     (render_model_page title model_rel info_html image_src stylesheet_href back_href netlogo_url) \<and>
   sublist (str ''<h1>'' @ escape title @ str ''</h1>'')
     (render_model_page title model_rel info_html image_src stylesheet_href back_href netlogo_url) \<and>
   sublist (str ''<link rel="stylesheet" href="'' @ escape stylesheet_href @ str ''" />'')
     (render_model_page title model_rel info_html image_src stylesheet_href back_href netlogo_url) \<and>
   sublist (str ''<a class="back-link" href="'' @ escape back_href @ str ''">'')
     (render_model_page title model_rel info_html image_src stylesheet_href back_href netlogo_url) \<and>
   sublist (str ''<a class="run-button" href="'' @ escape netlogo_url @ str ''" target="_blank"'')
     (render_model_page title model_rel info_html image_src stylesheet_href back_href netlogo_url) \<and>
   sublist (str ''<img src="'' @ escape (c # src) @ str ''" alt="Screenshot of '' @ escape title
            @ str ''" />'')
     (render_model_page title model_rel info_html (Some (c # src))
        stylesheet_href back_href netlogo_url)\<close>
  by (intro conjI unescape_escape escape_no_markup markup_chars_page_Some markup_chars_page_None
      title_in_page h1_in_page stylesheet_in_page back_link_in_page run_url_in_page image_in_page)

theorem escape_round_trip_and_page_witness:
  \<open>unescape (escape (str ''<b>Wolf & "Sheep"</b>'')) = str ''<b>Wolf & "Sheep"</b>'' \<and>
   escape (str ''<b>Wolf & "Sheep"</b>'') = str ''&lt;b&gt;Wolf &amp; &quot;Sheep&quot;&lt;/b&gt;''\<close>
proof -
  have "escape (str ''<b>Wolf & \"Sheep\"</b>'') = str ''&lt;b&gt;Wolf &amp; &quot;Sheep&quot;&lt;/b&gt;''"
    by (simp add: escape_Cons)
  with escape_round_trip_and_page [THEN conjunct1, of "str ''<b>Wolf & \"Sheep\"</b>''"]
  show ?thesis by blast
qed




section \<open>The scenario of one model in a folder\<close>

lemma wolf_sheep_parts:
  "relative_to [str ''models'', str ''Biology'', str ''Wolf Sheep.nlogox''] MODELS_DIR
     = Inr [str ''Biology'', str ''Wolf Sheep.nlogox'']"
  "path_stem [str ''Biology'', str ''Wolf Sheep.nlogox''] = str ''Wolf Sheep''"
  "with_suffix [str ''Biology'', str ''Wolf Sheep.nlogox''] (str ''.png'')
     = Inr [str ''Biology'', str ''Wolf Sheep.png'']"
  "with_suffix [str ''Biology'', str ''Wolf Sheep.nlogox''] (str ''.html'')
     = Inr [str ''Biology'', str ''Wolf Sheep.html'']"
  "netlogoweb_url [str ''Biology'', str ''Wolf Sheep.nlogox'']
     = str ''https://netlogoweb.org/launch#https://netlogoweb.org/assets/modelslib/Biology/Wolf%20Sheep.nlogox''"
  by (simp_all add: relative_to_def MODELS_DIR_def path_stem_def path_name_def rfind_def
      with_suffix_def path_suffix_def netlogoweb_url_def as_posix_def Let_def)

lemma wolf_sheep_info:
  "extract_info wolf_sheep_files [str ''models'', str ''Biology'', str ''Wolf Sheep.nlogox'']
     = Inr (str ''# Title\<newline>\<newline>Text'')"
  by (simp add: extract_info_def read_text_def wolf_sheep_files_def ascii_def
      universal_newlines_def INFO_OPEN_def INFO_CLOSE_def ci_match_def lower_char_def
      strip_def isspace_def)

lemma wolf_sheep_image:
  "relative_image_path wolf_sheep_files [str ''Biology'', str ''Wolf Sheep.nlogox''] (str ''../../'')
     = Inr (Some (str ''../../../models/Biology/Wolf Sheep.png''))"
  by (simp add: relative_image_path_def wolf_sheep_parts [simplified] wolf_sheep_files_def
      MODELS_DIR_def as_posix_def)

lemma wolf_sheep_process:
  "process_model markdown wolf_sheep_files
     [str ''models'', str ''Biology'', str ''Wolf Sheep.nlogox''] (Map.empty, Tree None None)
   = Inr ([[str ''site'', str ''models'', str ''Biology'', str ''Wolf Sheep.html''] \<mapsto>
             render_model_page (str ''Wolf Sheep'') [str ''Biology'', str ''Wolf Sheep.nlogox'']
               (markdown (str ''# Title\<newline>\<newline>Text''))
               (Some (str ''../../../models/Biology/Wolf Sheep.png''))
               (str ''../../styles.css'') (str ''../../index.html'')
               (str ''https://netlogoweb.org/launch#https://netlogoweb.org/assets/modelslib/Biology/Wolf%20Sheep.nlogox'')],
          Tree (Some [(str ''Biology'',
                  Tree None (Some [FileItem (str ''Wolf Sheep.nlogox'')
                                     (str ''models/Biology/Wolf Sheep.html'')]))]) None)"
  by (simp add: process_model_def wolf_sheep_parts [simplified] wolf_sheep_info [simplified]
      wolf_sheep_image [simplified] OUTPUT_MODELS_DIR_def SITE_DIR_def as_posix_def
      path_name_def get_or_empty_def Let_def)

lemma not_sublist_skip2I:
  "\<not> match_begins p (a @ e) \<Longrightarrow> \<not> sublist p b \<Longrightarrow> \<not> sublist p (a @ e @ b)"
  using not_sublist_skipI [of p "a @ e" b] by simp

text \<open>
  Claim C7, as the code has it. For the model \<open>Biology/Wolf Sheep.nlogox\<close> with a
  documentation block and the screenshot \<open>Wolf Sheep.png\<close> beside it, and for every Markdown
  renderer, the loop body writes the page to \<open>site/models/Biology/Wolf Sheep.html\<close> and
  registers the link \<open>models/Biology/Wolf Sheep.html\<close> in the tree. The page has an \<open>img\<close>
  element whose source is \<open>../../../models/Biology/Wolf Sheep.png\<close> (the prefix to the site
  directory, \<open>../../\<close>, followed by \<open>../models/\<close>: the screenshot is referred to in the
  directory of the models, beside the site), a back link to \<open>../../index.html\<close>, and the run
  URL, in which the space of the relative path is written \<open>%20\<close>.
\<close>

theorem wolf_sheep_scenario:
  \<open>\<exists>page.
     process_model markdown wolf_sheep_files
       [str ''models'', str ''Biology'', str ''Wolf Sheep.nlogox''] (Map.empty, Tree None None)
     = Inr ([[str ''site'', str ''models'', str ''Biology'', str ''Wolf Sheep.html''] \<mapsto> page],
            Tree (Some [(str ''Biology'',
                    Tree None (Some [FileItem (str ''Wolf Sheep.nlogox'')
                                       (str ''models/Biology/Wolf Sheep.html'')]))]) None) \<and>
     sublist (str ''<img src="../../../models/Biology/Wolf Sheep.png" alt="Screenshot of Wolf Sheep" />'')
       page \<and>
     sublist (str ''<a class="back-link" href="../../index.html">'') page \<and>
     sublist (str ''<a class="run-button" href="https://netlogoweb.org/launch#https://netlogoweb.org/assets/modelslib/Biology/Wolf%20Sheep.nlogox" target="_blank"'')
       page\<close>
proof -
  let ?page = "render_model_page (str ''Wolf Sheep'') [str ''Biology'', str ''Wolf Sheep.nlogox'']
               (markdown (str ''# Title\<newline>\<newline>Text''))
               (Some (str ''../../../models/Biology/Wolf Sheep.png''))
               (str ''../../styles.css'') (str ''../../index.html'')
               (str ''https://netlogoweb.org/launch#https://netlogoweb.org/assets/modelslib/Biology/Wolf%20Sheep.nlogox'')"
  have \<open>sublist (str ''<img src="../../../models/Biology/Wolf Sheep.png" alt="Screenshot of Wolf Sheep" />'')
       ?page\<close>
    using image_in_page [of 46 "str ''./../../models/Biology/Wolf Sheep.png''" "str ''Wolf Sheep''"
        "[str ''Biology'', str ''Wolf Sheep.nlogox'']" "markdown (str ''# Title\<newline>\<newline>Text'')"
        "str ''../../styles.css''" "str ''../../index.html''"
        "str ''https://netlogoweb.org/launch#https://netlogoweb.org/assets/modelslib/Biology/Wolf%20Sheep.nlogox''"]
    by (simp add: escape_Cons)
  moreover have \<open>sublist (str ''<a class="back-link" href="../../index.html">'') ?page\<close>
    using back_link_in_page [of "str ''../../index.html''" "str ''Wolf Sheep''"
        "[str ''Biology'', str ''Wolf Sheep.nlogox'']" "markdown (str ''# Title\<newline>\<newline>Text'')"
        "Some (str ''../../../models/Biology/Wolf Sheep.png'')"
        "str ''../../styles.css''"
        "str ''https://netlogoweb.org/launch#https://netlogoweb.org/assets/modelslib/Biology/Wolf%20Sheep.nlogox''"]
    by (simp add: escape_Cons)
  moreover have \<open>sublist (str ''<a class="run-button" href="https://netlogoweb.org/launch#https://netlogoweb.org/assets/modelslib/Biology/Wolf%20Sheep.nlogox" target="_blank"'')
       ?page\<close>
    using run_url_in_page [of "str ''https://netlogoweb.org/launch#https://netlogoweb.org/assets/modelslib/Biology/Wolf%20Sheep.nlogox''"
        "str ''Wolf Sheep''"
        "[str ''Biology'', str ''Wolf Sheep.nlogox'']" "markdown (str ''# Title\<newline>\<newline>Text'')"
        "Some (str ''../../../models/Biology/Wolf Sheep.png'')"
        "str ''../../styles.css''" "str ''../../index.html''"]
    by (simp add: escape_Cons)
  ultimately show ?thesis
    using wolf_sheep_process [of markdown] by blast
qed

text \<open>
  The source of the image is not \<open>../../models/Biology/Wolf Sheep.png\<close>: the page has no
  \<open>img\<close> element with that source.
\<close>

theorem wolf_sheep_img_src_counterexample:
  \<open>process_model (\<lambda>s. str ''<h1>Title</h1>\<newline><p>Text</p>'') wolf_sheep_files
       [str ''models'', str ''Biology'', str ''Wolf Sheep.nlogox''] (Map.empty, Tree None None)
     = Inr ([[str ''site'', str ''models'', str ''Biology'', str ''Wolf Sheep.html''] \<mapsto>
               render_model_page (str ''Wolf Sheep'') [str ''Biology'', str ''Wolf Sheep.nlogox'']
                 (str ''<h1>Title</h1>\<newline><p>Text</p>'')
                 (Some (str ''../../../models/Biology/Wolf Sheep.png''))
                 (str ''../../styles.css'') (str ''../../index.html'')
                 (str ''https://netlogoweb.org/launch#https://netlogoweb.org/assets/modelslib/Biology/Wolf%20Sheep.nlogox'')],
            Tree (Some [(str ''Biology'',
                    Tree None (Some [FileItem (str ''Wolf Sheep.nlogox'')
                                       (str ''models/Biology/Wolf Sheep.html'')]))]) None) \<and>
   \<not> sublist (str ''<img src="../../models/Biology/Wolf Sheep.png"'')
       (render_model_page (str ''Wolf Sheep'') [str ''Biology'', str ''Wolf Sheep.nlogox'']
          (str ''<h1>Title</h1>\<newline><p>Text</p>'')
          (Some (str ''../../../models/Biology/Wolf Sheep.png''))
          (str ''../../styles.css'') (str ''../../index.html'')
          (str ''https://netlogoweb.org/launch#https://netlogoweb.org/assets/modelslib/Biology/Wolf%20Sheep.nlogox''))\<close>
proof -
  have src: "str ''../../../models/Biology/Wolf Sheep.png'' \<noteq> []"
    and info: "str ''<h1>Title</h1>\<newline><p>Text</p>'' \<noteq> []"
    by simp_all
  have \<open>\<not> sublist (str ''<img src="../../models/Biology/Wolf Sheep.png"'')
       (render_model_page (str ''Wolf Sheep'') [str ''Biology'', str ''Wolf Sheep.nlogox'']
          (str ''<h1>Title</h1>\<newline><p>Text</p>'')
          (Some (str ''../../../models/Biology/Wolf Sheep.png''))
          (str ''../../styles.css'') (str ''../../index.html'')
          (str ''https://netlogoweb.org/launch#https://netlogoweb.org/assets/modelslib/Biology/Wolf%20Sheep.nlogox''))\<close>
    unfolding render_model_page_def Let_def option.case if_P [OF src] if_P [OF info] append_assoc
    apply ((rule not_sublist_skipI, (simp; fail))+)
    apply (rule not_sublist_skip2I)
     apply (simp add: escape_Cons)
    apply ((rule not_sublist_skipI, (simp add: escape_Cons; fail))+)
    apply (simp add: sublist_Cons_right)
    done
  with wolf_sheep_process [of "\<lambda>s. str ''<h1>Title</h1>\<newline><p>Text</p>''"]
  show ?thesis by simp
qed


end
